theory Spec2Isabelle
  imports Main "HOL-Library.Word"
begin

unbundle bit_operations_syntax

section \<open>Data model\<close>

text \<open>
  The credential cipher lives in \<^verbatim>\<open>helpers/cryptoHelpers.js\<close>: the check of
  \<^verbatim>\<open>ENCRYPTION_KEY\<close> made when the module is loaded, \<^verbatim>\<open>encrypt\<close> and \<^verbatim>\<open>decrypt\<close>.  The three
  are translated statement by statement in the section on the module.  What they call in
  Node (\<^verbatim>\<open>Buffer\<close>, \<^verbatim>\<open>crypto.createCipheriv\<close>, \<^verbatim>\<open>crypto.createDecipheriv\<close>, \<^verbatim>\<open>update\<close>, \<^verbatim>\<open>final\<close>
  and their string encodings) is written out before it, after the documents that define
  it: UTF-8 and its decoder (the Encoding standard), base64 (RFC 4648, with the lenient
  decoding of Node, which reads the low byte of each code unit), AES-256 (FIPS 197), and cipher block chaining with the padding
  and the buffering of OpenSSL's \<^verbatim>\<open>EVP_CipherUpdate\<close> and \<^verbatim>\<open>EVP_CipherFinal\<close>.

  A Node \<^verbatim>\<open>Buffer\<close> is a list of bytes; a JavaScript string is a list of UTF-16 code units,
  and \<^verbatim>\<open>.length\<close> counts code units.  Every \<^verbatim>\<open>throw\<close> of the module or of the library is a
  value of \<open>error\<close>.
\<close>

type_synonym byte = "8 word"
type_synonym code_unit = "16 word"
type_synonym jsstring = "code_unit list"

datatype error =
    ConfigError            \<comment> \<open>\<^verbatim>\<open>ENCRYPTION_KEY must be 32 characters long\<close>\<close>
  | InvalidIV              \<comment> \<open>\<^verbatim>\<open>Invalid initialization vector\<close>\<close>
  | InvalidKeyLength       \<comment> \<open>\<^verbatim>\<open>Invalid key length\<close>\<close>
  | InvalidArgType         \<comment> \<open>\<^verbatim>\<open>The "data" argument must be of type string or ...\<close>\<close>
  | WrongFinalBlockLength  \<comment> \<open>\<^verbatim>\<open>wrong final block length\<close>\<close>
  | BadDecrypt             \<comment> \<open>\<^verbatim>\<open>bad decrypt\<close>\<close>

definition js :: "string \<Rightarrow> jsstring" where
  "js s = map of_char s"

definition colon :: code_unit where
  "colon = 0x3A"

definition equals_sign :: code_unit where
  "equals_sign = 0x3D"

definition replacement_char :: nat where
  "replacement_char = 0xFFFD"

section \<open>UTF-8\<close>

text \<open>
  \<^verbatim>\<open>Buffer.from(str)\<close> and the input encoding \<^verbatim>\<open>'utf8'\<close> of \<^verbatim>\<open>cipher.update\<close> encode the
  string's code points; a surrogate pair is one code point above U+FFFF and an unpaired
  surrogate is written as U+FFFD.
\<close>

definition is_high_surrogate :: "code_unit \<Rightarrow> bool" where
  "is_high_surrogate u = (0xD800 \<le> unat u \<and> unat u \<le> 0xDBFF)"

definition is_low_surrogate :: "code_unit \<Rightarrow> bool" where
  "is_low_surrogate u = (0xDC00 \<le> unat u \<and> unat u \<le> 0xDFFF)"

definition utf8_bytes :: "nat \<Rightarrow> byte list" where
  "utf8_bytes c =
     (if c < 0x80 then [of_nat c]
      else if c < 0x800 then [of_nat (0xC0 + c div 64), of_nat (0x80 + c mod 64)]
      else if c < 0x10000 then
        [of_nat (0xE0 + c div 4096), of_nat (0x80 + c div 64 mod 64), of_nat (0x80 + c mod 64)]
      else
        [of_nat (0xF0 + c div 262144), of_nat (0x80 + c div 4096 mod 64),
         of_nat (0x80 + c div 64 mod 64), of_nat (0x80 + c mod 64)])"

definition pair_code_point :: "code_unit \<Rightarrow> code_unit \<Rightarrow> nat" where
  "pair_code_point u v = 0x10000 + (unat u - 0xD800) * 1024 + (unat v - 0xDC00)"

fun utf8_encode :: "jsstring \<Rightarrow> byte list" where
  "utf8_encode [] = []"
| "utf8_encode [u] =
     (if is_high_surrogate u \<or> is_low_surrogate u then utf8_bytes replacement_char
      else utf8_bytes (unat u))"
| "utf8_encode (u # v # us) =
     (if is_high_surrogate u \<and> is_low_surrogate v
        then utf8_bytes (pair_code_point u v) @ utf8_encode us
      else if is_high_surrogate u \<or> is_low_surrogate u
        then utf8_bytes replacement_char @ utf8_encode (v # us)
      else utf8_bytes (unat u) @ utf8_encode (v # us))"

text \<open>
  The output encoding \<^verbatim>\<open>'utf8'\<close> of \<^verbatim>\<open>decipher.update\<close> and \<^verbatim>\<open>decipher.final\<close> goes through a
  \<^verbatim>\<open>StringDecoder\<close> kept on the decipher object: a character whose bytes are split between
  the two calls is completed by the second one.  The decoder is the byte-at-a-time UTF-8
  decoder of the Encoding standard: the code point collected so far, the number of
  continuation bytes still expected, and the bounds the next byte must meet.
\<close>

datatype utf8_state = Utf8State (u_cp: nat) (u_need: nat) (u_lower: nat) (u_upper: nat)

definition utf8_init :: utf8_state where
  "utf8_init = Utf8State 0 0 0x80 0xBF"

definition code_units :: "nat \<Rightarrow> jsstring" where
  "code_units c =
     (if c < 0x10000 then [of_nat c]
      else [of_nat (0xD800 + (c - 0x10000) div 1024), of_nat (0xDC00 + (c - 0x10000) mod 1024)])"

definition utf8_lead :: "nat \<Rightarrow> utf8_state \<times> jsstring" where
  "utf8_lead b =
     (if b \<le> 0x7F then (utf8_init, code_units b)
      else if 0xC2 \<le> b \<and> b \<le> 0xDF then (Utf8State (b mod 32) 1 0x80 0xBF, [])
      else if 0xE0 \<le> b \<and> b \<le> 0xEF then
        (Utf8State (b mod 16) 2 (if b = 0xE0 then 0xA0 else 0x80) (if b = 0xED then 0x9F else 0xBF), [])
      else if 0xF0 \<le> b \<and> b \<le> 0xF4 then
        (Utf8State (b mod 8) 3 (if b = 0xF0 then 0x90 else 0x80) (if b = 0xF4 then 0x8F else 0xBF), [])
      else (utf8_init, code_units replacement_char))"

definition utf8_step :: "utf8_state \<Rightarrow> byte \<Rightarrow> utf8_state \<times> jsstring" where
  "utf8_step st x =
     (let b = unat x in
      if u_need st = 0 then utf8_lead b
      else if b < u_lower st \<or> u_upper st < b then
        (let (st', out) = utf8_lead b in (st', code_units replacement_char @ out))
      else
        (let c = u_cp st * 64 + b mod 64 in
         if u_need st = 1 then (utf8_init, code_units c)
         else (Utf8State c (u_need st - 1) 0x80 0xBF, [])))"

fun utf8_write :: "utf8_state \<Rightarrow> byte list \<Rightarrow> utf8_state \<times> jsstring" where
  "utf8_write st [] = (st, [])"
| "utf8_write st (x # xs) =
     (let (st', out) = utf8_step st x;
          (st'', out') = utf8_write st' xs
      in (st'', out @ out'))"

definition utf8_end :: "utf8_state \<Rightarrow> byte list \<Rightarrow> jsstring" where
  "utf8_end st xs =
     (let (st', out) = utf8_write st xs
      in out @ (if u_need st' = 0 then [] else code_units replacement_char))"

section \<open>Base64\<close>

text \<open>
  \<^verbatim>\<open>buf.toString('base64')\<close> writes four characters of the alphabet
  \<^verbatim>\<open>A-Z a-z 0-9 + /\<close> for three bytes and pads the last group with \<^verbatim>\<open>=\<close>.
\<close>

definition b64_char :: "nat \<Rightarrow> code_unit" where
  "b64_char n =
     of_nat (if n < 26 then 65 + n else if n < 52 then 71 + n else if n < 62 then n - 4
             else if n = 62 then 43 else 47)"

fun b64_encode :: "byte list \<Rightarrow> jsstring" where
  "b64_encode (x # y # z # rest) =
     (let n = unat x * 65536 + unat y * 256 + unat z
      in b64_char (n div 262144) # b64_char (n div 4096 mod 64) #
         b64_char (n div 64 mod 64) # b64_char (n mod 64) # b64_encode rest)"
| "b64_encode [x, y] =
     (let n = unat x * 65536 + unat y * 256
      in [b64_char (n div 262144), b64_char (n div 4096 mod 64),
          b64_char (n div 64 mod 64), equals_sign])"
| "b64_encode [x] =
     (let n = unat x * 65536
      in [b64_char (n div 262144), b64_char (n div 4096 mod 64), equals_sign, equals_sign])"
| "b64_encode [] = []"

text \<open>
  \<^verbatim>\<open>Buffer.from(str, 'base64')\<close> and the input encoding \<^verbatim>\<open>'base64'\<close> never throw.  The
  decoder reads every code unit of the string through a cast to one byte, so that only
  the low byte of the unit counts: U+0141 is read as \<^verbatim>\<open>A\<close>, and U+013D as \<^verbatim>\<open>=\<close>.
  Decoding stops at the first unit read as \<^verbatim>\<open>=\<close>, units read as characters outside the
  alphabet (which also admits the URL-safe \<^verbatim>\<open>-\<close> and \<^verbatim>\<open>_\<close>) are skipped, and a trailing
  group of two or three characters gives one or two bytes.
\<close>

definition low_byte :: "code_unit \<Rightarrow> nat" where
  "low_byte c = unat c mod 256"

definition b64_value :: "code_unit \<Rightarrow> nat option" where
  "b64_value c =
     (let n = low_byte c in
      if 65 \<le> n \<and> n \<le> 90 then Some (n - 65)
      else if 97 \<le> n \<and> n \<le> 122 then Some (n - 71)
      else if 48 \<le> n \<and> n \<le> 57 then Some (n + 4)
      else if n = 43 \<or> n = 45 then Some 62
      else if n = 47 \<or> n = 95 then Some 63
      else None)"

fun b64_bytes :: "nat list \<Rightarrow> byte list" where
  "b64_bytes (a # b # c # d # rest) =
     (let n = a * 262144 + b * 4096 + c * 64 + d
      in of_nat (n div 65536) # of_nat (n div 256 mod 256) # of_nat (n mod 256) # b64_bytes rest)"
| "b64_bytes [a, b, c] =
     (let n = a * 262144 + b * 4096 + c * 64
      in [of_nat (n div 65536), of_nat (n div 256 mod 256)])"
| "b64_bytes [a, b] = [of_nat ((a * 262144 + b * 4096) div 65536)]"
| "b64_bytes rest = []"

definition b64_decode :: "jsstring \<Rightarrow> byte list" where
  "b64_decode s = b64_bytes (List.map_filter b64_value (takeWhile (\<lambda>c. low_byte c \<noteq> 61) s))"

text \<open>
  The output encoding \<^verbatim>\<open>'base64'\<close> of \<^verbatim>\<open>cipher.update\<close> and \<^verbatim>\<open>cipher.final\<close> goes through a
  \<^verbatim>\<open>StringDecoder\<close> as well: \<^verbatim>\<open>write\<close> encodes whole groups of three bytes and keeps the
  one or two bytes left over, \<^verbatim>\<open>end\<close> encodes what is left with its padding.
\<close>

definition b64_write :: "byte list \<Rightarrow> byte list \<Rightarrow> byte list \<times> jsstring" where
  "b64_write pending xs =
     (let buf = pending @ xs; n = length buf - length buf mod 3
      in (drop n buf, b64_encode (take n buf)))"

definition b64_end :: "byte list \<Rightarrow> byte list \<Rightarrow> jsstring" where
  "b64_end pending xs = b64_encode (pending @ xs)"

section \<open>AES-256 (FIPS 197)\<close>

text \<open>
  \<^verbatim>\<open>ALGORITHM = 'aes-256-cbc'\<close>.  The block cipher is the one of FIPS 197 with
  \<open>Nk = 8\<close> and \<open>Nr = 14\<close>; the state is the block in column order.
\<close>

definition sbox_table :: "byte list" where
  "sbox_table =
  [0x63, 0x7c, 0x77, 0x7b, 0xf2, 0x6b, 0x6f, 0xc5, 0x30, 0x01, 0x67, 0x2b, 0xfe, 0xd7, 0xab, 0x76,
   0xca, 0x82, 0xc9, 0x7d, 0xfa, 0x59, 0x47, 0xf0, 0xad, 0xd4, 0xa2, 0xaf, 0x9c, 0xa4, 0x72, 0xc0,
   0xb7, 0xfd, 0x93, 0x26, 0x36, 0x3f, 0xf7, 0xcc, 0x34, 0xa5, 0xe5, 0xf1, 0x71, 0xd8, 0x31, 0x15,
   0x04, 0xc7, 0x23, 0xc3, 0x18, 0x96, 0x05, 0x9a, 0x07, 0x12, 0x80, 0xe2, 0xeb, 0x27, 0xb2, 0x75,
   0x09, 0x83, 0x2c, 0x1a, 0x1b, 0x6e, 0x5a, 0xa0, 0x52, 0x3b, 0xd6, 0xb3, 0x29, 0xe3, 0x2f, 0x84,
   0x53, 0xd1, 0x00, 0xed, 0x20, 0xfc, 0xb1, 0x5b, 0x6a, 0xcb, 0xbe, 0x39, 0x4a, 0x4c, 0x58, 0xcf,
   0xd0, 0xef, 0xaa, 0xfb, 0x43, 0x4d, 0x33, 0x85, 0x45, 0xf9, 0x02, 0x7f, 0x50, 0x3c, 0x9f, 0xa8,
   0x51, 0xa3, 0x40, 0x8f, 0x92, 0x9d, 0x38, 0xf5, 0xbc, 0xb6, 0xda, 0x21, 0x10, 0xff, 0xf3, 0xd2,
   0xcd, 0x0c, 0x13, 0xec, 0x5f, 0x97, 0x44, 0x17, 0xc4, 0xa7, 0x7e, 0x3d, 0x64, 0x5d, 0x19, 0x73,
   0x60, 0x81, 0x4f, 0xdc, 0x22, 0x2a, 0x90, 0x88, 0x46, 0xee, 0xb8, 0x14, 0xde, 0x5e, 0x0b, 0xdb,
   0xe0, 0x32, 0x3a, 0x0a, 0x49, 0x06, 0x24, 0x5c, 0xc2, 0xd3, 0xac, 0x62, 0x91, 0x95, 0xe4, 0x79,
   0xe7, 0xc8, 0x37, 0x6d, 0x8d, 0xd5, 0x4e, 0xa9, 0x6c, 0x56, 0xf4, 0xea, 0x65, 0x7a, 0xae, 0x08,
   0xba, 0x78, 0x25, 0x2e, 0x1c, 0xa6, 0xb4, 0xc6, 0xe8, 0xdd, 0x74, 0x1f, 0x4b, 0xbd, 0x8b, 0x8a,
   0x70, 0x3e, 0xb5, 0x66, 0x48, 0x03, 0xf6, 0x0e, 0x61, 0x35, 0x57, 0xb9, 0x86, 0xc1, 0x1d, 0x9e,
   0xe1, 0xf8, 0x98, 0x11, 0x69, 0xd9, 0x8e, 0x94, 0x9b, 0x1e, 0x87, 0xe9, 0xce, 0x55, 0x28, 0xdf,
   0x8c, 0xa1, 0x89, 0x0d, 0xbf, 0xe6, 0x42, 0x68, 0x41, 0x99, 0x2d, 0x0f, 0xb0, 0x54, 0xbb, 0x16]"

definition inv_sbox_table :: "byte list" where
  "inv_sbox_table =
  [0x52, 0x09, 0x6a, 0xd5, 0x30, 0x36, 0xa5, 0x38, 0xbf, 0x40, 0xa3, 0x9e, 0x81, 0xf3, 0xd7, 0xfb,
   0x7c, 0xe3, 0x39, 0x82, 0x9b, 0x2f, 0xff, 0x87, 0x34, 0x8e, 0x43, 0x44, 0xc4, 0xde, 0xe9, 0xcb,
   0x54, 0x7b, 0x94, 0x32, 0xa6, 0xc2, 0x23, 0x3d, 0xee, 0x4c, 0x95, 0x0b, 0x42, 0xfa, 0xc3, 0x4e,
   0x08, 0x2e, 0xa1, 0x66, 0x28, 0xd9, 0x24, 0xb2, 0x76, 0x5b, 0xa2, 0x49, 0x6d, 0x8b, 0xd1, 0x25,
   0x72, 0xf8, 0xf6, 0x64, 0x86, 0x68, 0x98, 0x16, 0xd4, 0xa4, 0x5c, 0xcc, 0x5d, 0x65, 0xb6, 0x92,
   0x6c, 0x70, 0x48, 0x50, 0xfd, 0xed, 0xb9, 0xda, 0x5e, 0x15, 0x46, 0x57, 0xa7, 0x8d, 0x9d, 0x84,
   0x90, 0xd8, 0xab, 0x00, 0x8c, 0xbc, 0xd3, 0x0a, 0xf7, 0xe4, 0x58, 0x05, 0xb8, 0xb3, 0x45, 0x06,
   0xd0, 0x2c, 0x1e, 0x8f, 0xca, 0x3f, 0x0f, 0x02, 0xc1, 0xaf, 0xbd, 0x03, 0x01, 0x13, 0x8a, 0x6b,
   0x3a, 0x91, 0x11, 0x41, 0x4f, 0x67, 0xdc, 0xea, 0x97, 0xf2, 0xcf, 0xce, 0xf0, 0xb4, 0xe6, 0x73,
   0x96, 0xac, 0x74, 0x22, 0xe7, 0xad, 0x35, 0x85, 0xe2, 0xf9, 0x37, 0xe8, 0x1c, 0x75, 0xdf, 0x6e,
   0x47, 0xf1, 0x1a, 0x71, 0x1d, 0x29, 0xc5, 0x89, 0x6f, 0xb7, 0x62, 0x0e, 0xaa, 0x18, 0xbe, 0x1b,
   0xfc, 0x56, 0x3e, 0x4b, 0xc6, 0xd2, 0x79, 0x20, 0x9a, 0xdb, 0xc0, 0xfe, 0x78, 0xcd, 0x5a, 0xf4,
   0x1f, 0xdd, 0xa8, 0x33, 0x88, 0x07, 0xc7, 0x31, 0xb1, 0x12, 0x10, 0x59, 0x27, 0x80, 0xec, 0x5f,
   0x60, 0x51, 0x7f, 0xa9, 0x19, 0xb5, 0x4a, 0x0d, 0x2d, 0xe5, 0x7a, 0x9f, 0x93, 0xc9, 0x9c, 0xef,
   0xa0, 0xe0, 0x3b, 0x4d, 0xae, 0x2a, 0xf5, 0xb0, 0xc8, 0xeb, 0xbb, 0x3c, 0x83, 0x53, 0x99, 0x61,
   0x17, 0x2b, 0x04, 0x7e, 0xba, 0x77, 0xd6, 0x26, 0xe1, 0x69, 0x14, 0x63, 0x55, 0x21, 0x0c, 0x7d]"

definition sub_byte :: "byte \<Rightarrow> byte" where
  "sub_byte b = sbox_table ! unat b"

definition inv_sub_byte :: "byte \<Rightarrow> byte" where
  "inv_sub_byte b = inv_sbox_table ! unat b"

definition xtime :: "byte \<Rightarrow> byte" where
  "xtime b = (if bit b 7 then push_bit 1 b XOR 0x1b else push_bit 1 b)"

definition mul2 :: "byte \<Rightarrow> byte" where
  "mul2 b = xtime b"

definition mul3 :: "byte \<Rightarrow> byte" where
  "mul3 b = xtime b XOR b"

definition mul9 :: "byte \<Rightarrow> byte" where
  "mul9 b = xtime (xtime (xtime b)) XOR b"

definition mul11 :: "byte \<Rightarrow> byte" where
  "mul11 b = xtime (xtime (xtime b)) XOR xtime b XOR b"

definition mul13 :: "byte \<Rightarrow> byte" where
  "mul13 b = xtime (xtime (xtime b)) XOR xtime (xtime b) XOR b"

definition mul14 :: "byte \<Rightarrow> byte" where
  "mul14 b = xtime (xtime (xtime b)) XOR xtime (xtime b) XOR xtime b"

definition xor_bytes :: "byte list \<Rightarrow> byte list \<Rightarrow> byte list" where
  "xor_bytes xs ys = map2 (XOR) xs ys"

definition sub_bytes :: "byte list \<Rightarrow> byte list" where
  "sub_bytes s = map sub_byte s"

definition inv_sub_bytes :: "byte list \<Rightarrow> byte list" where
  "inv_sub_bytes s = map inv_sub_byte s"

definition shift_rows :: "byte list \<Rightarrow> byte list" where
  "shift_rows s = map (nth s) [0, 5, 10, 15, 4, 9, 14, 3, 8, 13, 2, 7, 12, 1, 6, 11]"

definition inv_shift_rows :: "byte list \<Rightarrow> byte list" where
  "inv_shift_rows s = map (nth s) [0, 13, 10, 7, 4, 1, 14, 11, 8, 5, 2, 15, 12, 9, 6, 3]"

fun mix_columns :: "byte list \<Rightarrow> byte list" where
  "mix_columns (a # b # c # d # rest) =
     (mul2 a XOR mul3 b XOR c XOR d) #
     (a XOR mul2 b XOR mul3 c XOR d) #
     (a XOR b XOR mul2 c XOR mul3 d) #
     (mul3 a XOR b XOR c XOR mul2 d) # mix_columns rest"
| "mix_columns rest = rest"

fun inv_mix_columns :: "byte list \<Rightarrow> byte list" where
  "inv_mix_columns (a # b # c # d # rest) =
     (mul14 a XOR mul11 b XOR mul13 c XOR mul9 d) #
     (mul9 a XOR mul14 b XOR mul11 c XOR mul13 d) #
     (mul13 a XOR mul9 b XOR mul14 c XOR mul11 d) #
     (mul11 a XOR mul13 b XOR mul9 c XOR mul14 d) # inv_mix_columns rest"
| "inv_mix_columns rest = rest"

definition rot_word :: "byte list \<Rightarrow> byte list" where
  "rot_word w = drop 1 w @ take 1 w"

definition rcon :: "nat \<Rightarrow> byte list" where
  "rcon j = [[0x01, 0x02, 0x04, 0x08, 0x10, 0x20, 0x40] ! (j - 1), 0, 0, 0]"

definition key_word :: "byte list \<Rightarrow> nat \<Rightarrow> byte list" where
  "key_word w i = take 4 (drop (4 * i) w)"

definition expand_step :: "byte list \<Rightarrow> nat \<Rightarrow> byte list" where
  "expand_step w i =
     (let temp = key_word w (i - 1);
          temp' = (if i mod 8 = 0 then xor_bytes (sub_bytes (rot_word temp)) (rcon (i div 8))
                   else if i mod 8 = 4 then sub_bytes temp
                   else temp)
      in w @ xor_bytes (key_word w (i - 8)) temp')"

definition key_expansion :: "byte list \<Rightarrow> byte list" where
  "key_expansion key = foldl expand_step key [8..<60]"

definition round_keys :: "byte list \<Rightarrow> byte list list" where
  "round_keys key = map (\<lambda>r. take 16 (drop (16 * r) (key_expansion key))) [0..<15]"

fun enc_rounds :: "byte list list \<Rightarrow> byte list \<Rightarrow> byte list" where
  "enc_rounds [] s = s"
| "enc_rounds [rk] s = xor_bytes (shift_rows (sub_bytes s)) rk"
| "enc_rounds (rk # rks) s =
     enc_rounds rks (xor_bytes (mix_columns (shift_rows (sub_bytes s))) rk)"

fun dec_rounds :: "byte list list \<Rightarrow> byte list \<Rightarrow> byte list" where
  "dec_rounds [] s = s"
| "dec_rounds [rk] s = inv_sub_bytes (inv_shift_rows (xor_bytes s rk))"
| "dec_rounds (rk # rks) s =
     inv_sub_bytes (inv_shift_rows (inv_mix_columns (xor_bytes (dec_rounds rks s) rk)))"

definition aes_encrypt_block :: "byte list list \<Rightarrow> byte list \<Rightarrow> byte list" where
  "aes_encrypt_block rks b = enc_rounds (tl rks) (xor_bytes b (hd rks))"

definition aes_decrypt_block :: "byte list list \<Rightarrow> byte list \<Rightarrow> byte list" where
  "aes_decrypt_block rks b = xor_bytes (dec_rounds (tl rks) b) (hd rks)"

section \<open>Cipher objects\<close>

text \<open>
  \<^verbatim>\<open>crypto.createCipheriv\<close> and \<^verbatim>\<open>crypto.createDecipheriv\<close> check the length of the IV, then
  the length of the key, and return an object that holds the key schedule, the chaining
  block, the input not yet processed and the \<^verbatim>\<open>StringDecoder\<close> of its output encoding.
\<close>

record cipher =
  ciph_keys :: "byte list list"
  ciph_chain :: "byte list"
  ciph_buf :: "byte list"
  ciph_decoder :: "byte list"

record decipher =
  deci_keys :: "byte list list"
  deci_chain :: "byte list"
  deci_buf :: "byte list"
  deci_decoder :: utf8_state

definition createCipheriv :: "byte list \<Rightarrow> byte list \<Rightarrow> error + cipher" where
  "createCipheriv key iv =
     (if length iv \<noteq> 16 then Inl InvalidIV
      else if length key \<noteq> 32 then Inl InvalidKeyLength
      else Inr \<lparr>ciph_keys = round_keys key, ciph_chain = iv, ciph_buf = [], ciph_decoder = []\<rparr>)"

definition createDecipheriv :: "byte list \<Rightarrow> byte list \<Rightarrow> error + decipher" where
  "createDecipheriv key iv =
     (if length iv \<noteq> 16 then Inl InvalidIV
      else if length key \<noteq> 32 then Inl InvalidKeyLength
      else Inr \<lparr>deci_keys = round_keys key, deci_chain = iv, deci_buf = [],
                deci_decoder = utf8_init\<rparr>)"

text \<open>Cipher block chaining over the first \<open>n\<close> blocks of the input.\<close>

fun cbc_encrypt :: "byte list list \<Rightarrow> byte list \<Rightarrow> nat \<Rightarrow> byte list \<Rightarrow> byte list \<times> byte list" where
  "cbc_encrypt rks chain 0 xs = (chain, [])"
| "cbc_encrypt rks chain (Suc n) xs =
     (let c = aes_encrypt_block rks (xor_bytes (take 16 xs) chain);
          (chain', out) = cbc_encrypt rks c n (drop 16 xs)
      in (chain', c @ out))"

fun cbc_decrypt :: "byte list list \<Rightarrow> byte list \<Rightarrow> nat \<Rightarrow> byte list \<Rightarrow> byte list \<times> byte list" where
  "cbc_decrypt rks chain 0 xs = (chain, [])"
| "cbc_decrypt rks chain (Suc n) xs =
     (let p = xor_bytes (aes_decrypt_block rks (take 16 xs)) chain;
          (chain', out) = cbc_decrypt rks (take 16 xs) n (drop 16 xs)
      in (chain', p @ out))"

text \<open>
  Encryption: \<^verbatim>\<open>update\<close> encrypts every whole block it has and keeps the rest; \<^verbatim>\<open>final\<close>
  pads what is kept to one block, each padding byte being the number of padding bytes
  (1 to 16), and encrypts it.
\<close>

definition encrypt_update :: "cipher \<Rightarrow> byte list \<Rightarrow> cipher \<times> byte list" where
  "encrypt_update c xs =
     (let buf = ciph_buf c @ xs;
          n = length buf div 16;
          (chain, out) = cbc_encrypt (ciph_keys c) (ciph_chain c) n buf
      in (c\<lparr>ciph_chain := chain, ciph_buf := drop (16 * n) buf\<rparr>, out))"

definition encrypt_final :: "cipher \<Rightarrow> byte list" where
  "encrypt_final c =
     (let k = 16 - length (ciph_buf c);
          block = ciph_buf c @ replicate k (of_nat k)
      in aes_encrypt_block (ciph_keys c) (xor_bytes block (ciph_chain c)))"

definition cipher_update :: "cipher \<Rightarrow> jsstring \<Rightarrow> cipher \<times> jsstring" where
  "cipher_update c plaintext =
     (let (c', out) = encrypt_update c (utf8_encode plaintext);
          (pending, text) = b64_write (ciph_decoder c') out
      in (c'\<lparr>ciph_decoder := pending\<rparr>, text))"

definition cipher_final :: "cipher \<Rightarrow> jsstring" where
  "cipher_final c = b64_end (ciph_decoder c) (encrypt_final c)"

text \<open>
  Decryption: \<^verbatim>\<open>update\<close> decrypts the whole blocks it has but holds the last one back,
  since it may carry the padding; \<^verbatim>\<open>final\<close> fails unless exactly one block is held,
  decrypts it, and fails unless its last byte \<open>n\<close> is between 1 and 16 and its last \<open>n\<close>
  bytes all are \<open>n\<close>.  A data argument that is not a string is refused.
\<close>

definition decrypt_update :: "decipher \<Rightarrow> byte list \<Rightarrow> decipher \<times> byte list" where
  "decrypt_update d xs =
     (let buf = deci_buf d @ xs;
          n = (length buf - 1) div 16;
          (chain, out) = cbc_decrypt (deci_keys d) (deci_chain d) n buf
      in (d\<lparr>deci_chain := chain, deci_buf := drop (16 * n) buf\<rparr>, out))"

definition decrypt_final :: "decipher \<Rightarrow> error + byte list" where
  "decrypt_final d =
     (if length (deci_buf d) \<noteq> 16 then Inl WrongFinalBlockLength
      else
        (let p = xor_bytes (aes_decrypt_block (deci_keys d) (deci_buf d)) (deci_chain d);
             n = unat (last p)
         in if n = 0 \<or> 16 < n then Inl BadDecrypt
            else if drop (16 - n) p \<noteq> replicate n (last p) then Inl BadDecrypt
            else Inr (take (16 - n) p)))"

definition decipher_update :: "decipher \<Rightarrow> jsstring option \<Rightarrow> error + decipher \<times> jsstring" where
  "decipher_update d data =
     (case data of
        None \<Rightarrow> Inl InvalidArgType
      | Some s \<Rightarrow>
          (let (d', out) = decrypt_update d (b64_decode s);
               (st, text) = utf8_write (deci_decoder d') out
           in Inr (d'\<lparr>deci_decoder := st\<rparr>, text)))"

definition decipher_final :: "decipher \<Rightarrow> error + jsstring" where
  "decipher_final d =
     (case decrypt_final d of
        Inl e \<Rightarrow> Inl e
      | Inr out \<Rightarrow> Inr (utf8_end (deci_decoder d) out))"

section \<open>The module \<^verbatim>\<open>cryptoHelpers.js\<close>\<close>

text \<open>
  Loading the module reads \<^verbatim>\<open>process.env.ENCRYPTION_KEY\<close> (\<open>None\<close> when the variable is not
  set) and throws when it is \<^verbatim>\<open>undefined\<close>, empty, or its \<^verbatim>\<open>.length\<close> is not 32.
\<close>

definition load_module :: "jsstring option \<Rightarrow> error + jsstring" where
  "load_module env =
     (case env of
        None \<Rightarrow> Inl ConfigError
      | Some ENCRYPTION_KEY \<Rightarrow>
          if ENCRYPTION_KEY = [] \<or> length ENCRYPTION_KEY \<noteq> 32 then Inl ConfigError
          else Inr ENCRYPTION_KEY)"

text \<open>
  \<^verbatim>\<open>encrypt(plaintext)\<close>.  The 16 bytes of \<^verbatim>\<open>crypto.randomBytes(16)\<close> are the argument \<open>iv\<close>.
\<close>

definition encrypt :: "jsstring \<Rightarrow> byte list \<Rightarrow> jsstring \<Rightarrow> error + jsstring" where
  "encrypt ENCRYPTION_KEY iv plaintext =
     (case createCipheriv (utf8_encode ENCRYPTION_KEY) iv of
        Inl e \<Rightarrow> Inl e
      | Inr c \<Rightarrow>
          (let (c', encrypted) = cipher_update c plaintext;
               encrypted' = encrypted @ cipher_final c';
               ivBase64 = b64_encode iv;
               payload = ivBase64 @ [colon] @ encrypted'
           in Inr payload))"

text \<open>
  \<^verbatim>\<open>payload.split(':')\<close> cuts the string at every colon, so it returns one more piece than
  there are colons; the destructuring \<^verbatim>\<open>[ivBase64, encryptedData]\<close> takes the first two
  pieces, and \<^verbatim>\<open>encryptedData\<close> is \<^verbatim>\<open>undefined\<close> when there is only one.
\<close>

fun split_colon :: "jsstring \<Rightarrow> jsstring list" where
  "split_colon [] = [[]]"
| "split_colon (c # cs) =
     (if c = colon then [] # split_colon cs
      else (case split_colon cs of
              [] \<Rightarrow> [[c]]
            | p # ps \<Rightarrow> (c # p) # ps))"

definition decrypt :: "jsstring \<Rightarrow> jsstring \<Rightarrow> error + jsstring" where
  "decrypt ENCRYPTION_KEY payload =
     (let parts = split_colon payload;
          ivBase64 = hd parts;
          encryptedData = (case tl parts of [] \<Rightarrow> None | p # ps \<Rightarrow> Some p);
          iv = b64_decode ivBase64
      in case createDecipheriv (utf8_encode ENCRYPTION_KEY) iv of
           Inl e \<Rightarrow> Inl e
         | Inr d \<Rightarrow>
             (case decipher_update d encryptedData of
                Inl e \<Rightarrow> Inl e
              | Inr (d', decrypted) \<Rightarrow>
                  (case decipher_final d' of
                     Inl e \<Rightarrow> Inl e
                   | Inr text \<Rightarrow> Inr (decrypted @ text))))"

section \<open>Notions used to state the properties\<close>

text \<open>
  A string is well formed when every surrogate code unit is half of a pair: these are the
  strings that have a UTF-8 encoding.
\<close>

fun well_formed :: "jsstring \<Rightarrow> bool" where
  "well_formed [] = True"
| "well_formed [u] = (\<not> is_high_surrogate u \<and> \<not> is_low_surrogate u)"
| "well_formed (u # v # us) =
     (if is_high_surrogate u \<and> is_low_surrogate v then well_formed us
      else \<not> is_high_surrogate u \<and> \<not> is_low_surrogate u \<and> well_formed (v # us))"

text \<open>The wire format of the specification: \<^verbatim>\<open>base64(iv) + ":" + base64(ciphertext)\<close>.\<close>

definition token :: "byte list \<Rightarrow> byte list \<Rightarrow> jsstring" where
  "token iv ct = b64_encode iv @ [colon] @ b64_encode ct"

text \<open>
  The ciphertext of the specification: the block cipher in CBC mode over the message
  with PKCS#7 padding, in one piece.
\<close>

definition pkcs7_pad :: "byte list \<Rightarrow> byte list" where
  "pkcs7_pad xs = (let k = 16 - length xs mod 16 in xs @ replicate k (of_nat k))"

definition cbc_pkcs7_encrypt :: "byte list \<Rightarrow> byte list \<Rightarrow> byte list \<Rightarrow> byte list" where
  "cbc_pkcs7_encrypt key iv xs =
     (let p = pkcs7_pad xs in snd (cbc_encrypt (round_keys key) iv (length p div 16) p))"

text \<open>
  What decryption under a key makes of a ciphertext of whole blocks: the blocks before the
  last one, and the last block, whose padding decides whether decryption succeeds.
\<close>

definition cbc_body :: "byte list \<Rightarrow> byte list \<Rightarrow> byte list \<Rightarrow> byte list" where
  "cbc_body key iv ct = snd (cbc_decrypt (round_keys key) iv (length ct div 16 - 1) ct)"

definition final_block :: "byte list \<Rightarrow> byte list \<Rightarrow> byte list \<Rightarrow> byte list" where
  "final_block key iv ct =
     (let m = length ct div 16 - 1
      in xor_bytes (aes_decrypt_block (round_keys key) (drop (16 * m) ct))
           (fst (cbc_decrypt (round_keys key) iv m ct)))"

definition pkcs7_valid :: "byte list \<Rightarrow> bool" where
  "pkcs7_valid p =
     (let n = unat (last p) in 1 \<le> n \<and> n \<le> 16 \<and> drop (16 - n) p = replicate n (last p))"

definition pkcs7_unpad :: "byte list \<Rightarrow> byte list" where
  "pkcs7_unpad p = take (16 - unat (last p)) p"

text \<open>Auxiliary notions of the proofs.\<close>

definition keys_ok :: "byte list list \<Rightarrow> bool" where
  "keys_ok rks = (rks \<noteq> [] \<and> (\<forall>rk \<in> set rks. length rk = 16))"

definition second_part :: "jsstring \<Rightarrow> jsstring option" where
  "second_part t = (case tl (split_colon t) of [] \<Rightarrow> None | p # ps \<Rightarrow> Some p)"

definition b64_sextets :: "jsstring \<Rightarrow> nat list" where
  "b64_sextets s = List.map_filter b64_value (takeWhile (\<lambda>c. low_byte c \<noteq> 61) s)"

section \<open>Concrete inputs\<close>

definition example_key :: jsstring where
  "example_key = js ''0123456789abcdef0123456789abcdef''"

definition other_key :: jsstring where
  "other_key = js ''fedcba9876543210fedcba9876543210''"

text \<open>Thirty-one ASCII characters and U+00E9: 32 code units, 33 bytes in UTF-8.\<close>

definition accented_key :: jsstring where
  "accented_key = js ''0123456789abcdef0123456789abcde'' @ [0xE9]"

text \<open>Thirty ASCII characters and U+00E9: 31 code units, 32 bytes in UTF-8.\<close>

definition short_accented_key :: jsstring where
  "short_accented_key = js ''0123456789abcdef0123456789abcd'' @ [0xE9]"

text \<open>The key, the block and the cipher block of FIPS 197, appendix C.3.\<close>

definition fips_key :: "byte list" where
  "fips_key =
     [0x00, 0x01, 0x02, 0x03, 0x04, 0x05, 0x06, 0x07, 0x08, 0x09, 0x0a, 0x0b, 0x0c, 0x0d, 0x0e, 0x0f,
      0x10, 0x11, 0x12, 0x13, 0x14, 0x15, 0x16, 0x17, 0x18, 0x19, 0x1a, 0x1b, 0x1c, 0x1d, 0x1e, 0x1f]"

definition fips_plain :: "byte list" where
  "fips_plain =
     [0x00, 0x11, 0x22, 0x33, 0x44, 0x55, 0x66, 0x77, 0x88, 0x99, 0xaa, 0xbb, 0xcc, 0xdd, 0xee, 0xff]"

definition fips_cipher :: "byte list" where
  "fips_cipher =
     [0x8e, 0xa2, 0xb7, 0xca, 0x51, 0x67, 0x45, 0xbf, 0xea, 0xfc, 0x49, 0x90, 0x4b, 0x49, 0x60, 0x89]"

text \<open>The one-character string of an unpaired high surrogate, U+D800.\<close>

definition lone_surrogate :: jsstring where
  "lone_surrogate = [0xD800]"

definition example_iv :: "byte list" where
  "example_iv = [0, 1, 2, 3, 4, 5, 6, 7, 8, 9, 10, 11, 12, 13, 14, 15]"

definition other_iv :: "byte list" where
  "other_iv = [15, 14, 13, 12, 11, 10, 9, 8, 7, 6, 5, 4, 3, 2, 1, 0]"

definition hello_token :: jsstring where
  "hello_token = js ''AAECAwQFBgcICQoLDA0ODw==:MYNSl5uYV6V9tOH5RSXtDA==''"

text \<open>
  Fifteen ASCII characters, U+20AC and U+1F600: the three bytes of U+20AC lie on both sides
  of the end of the first block.
\<close>

definition straddling_text :: jsstring where
  "straddling_text = js ''0123456789abcde'' @ [0x20AC, 0xD83D, 0xDE00]"

definition straddling_token :: jsstring where
  "straddling_token = js ''AAECAwQFBgcICQoLDA0ODw==:rE2WTKA9lKZJ88V1xJr5d9562IOFHcZNnfSqPcoWvMQ=''"

definition empty_token :: jsstring where
  "empty_token = js ''AAECAwQFBgcICQoLDA0ODw==:b7GfSdrqnR1cMmy4e2fc6A==''"

definition secret_token :: jsstring where
  "secret_token = js ''AAECAwQFBgcICQoLDA0ODw==:X+j76Y2anoAF9NNC6nJA4A==''"

definition secret_garbled :: jsstring where
  "secret_garbled =
     [0xFFFD, 0x5E, 0xFFFD, 0xFFFD, 0x17, 0xFFFD, 0xFFFD, 0x22, 0xFFFD, 0x10, 0x4C, 0xFFFD,
      0x4B, 0x2C, 0xFFFD]"





text \<open>
  \<open>hello_token\<close> with a code unit above U+00FF in the place of a character with the same
  low byte: U+0141 for the first \<^verbatim>\<open>A\<close> of the first piece, U+014D for the first \<^verbatim>\<open>M\<close> of
  the second piece; and \<open>hello_token\<close> after U+0141.
\<close>

definition wide_iv_token :: jsstring where
  "wide_iv_token = 0x141 # js ''AECAwQFBgcICQoLDA0ODw==:MYNSl5uYV6V9tOH5RSXtDA==''"

definition wide_text_token :: jsstring where
  "wide_text_token = js ''AAECAwQFBgcICQoLDA0ODw==:'' @ 0x14D # js ''YNSl5uYV6V9tOH5RSXtDA==''"

definition wide_prefix_token :: jsstring where
  "wide_prefix_token = 0x141 # hello_token"

section \<open>Evaluating the block cipher\<close>

text \<open>The S-box, its inverse and \<open>xtime\<close> at every byte, read off the definitions.\<close>

lemma sub_byte_numeral:
  "sub_byte 0x00 = 0x63" "sub_byte 0x01 = 0x7c" "sub_byte 0x02 = 0x77" "sub_byte 0x03 = 0x7b"
  "sub_byte 0x04 = 0xf2" "sub_byte 0x05 = 0x6b" "sub_byte 0x06 = 0x6f" "sub_byte 0x07 = 0xc5"
  "sub_byte 0x08 = 0x30" "sub_byte 0x09 = 0x01" "sub_byte 0x0a = 0x67" "sub_byte 0x0b = 0x2b"
  "sub_byte 0x0c = 0xfe" "sub_byte 0x0d = 0xd7" "sub_byte 0x0e = 0xab" "sub_byte 0x0f = 0x76"
  "sub_byte 0x10 = 0xca" "sub_byte 0x11 = 0x82" "sub_byte 0x12 = 0xc9" "sub_byte 0x13 = 0x7d"
  "sub_byte 0x14 = 0xfa" "sub_byte 0x15 = 0x59" "sub_byte 0x16 = 0x47" "sub_byte 0x17 = 0xf0"
  "sub_byte 0x18 = 0xad" "sub_byte 0x19 = 0xd4" "sub_byte 0x1a = 0xa2" "sub_byte 0x1b = 0xaf"
  "sub_byte 0x1c = 0x9c" "sub_byte 0x1d = 0xa4" "sub_byte 0x1e = 0x72" "sub_byte 0x1f = 0xc0"
  "sub_byte 0x20 = 0xb7" "sub_byte 0x21 = 0xfd" "sub_byte 0x22 = 0x93" "sub_byte 0x23 = 0x26"
  "sub_byte 0x24 = 0x36" "sub_byte 0x25 = 0x3f" "sub_byte 0x26 = 0xf7" "sub_byte 0x27 = 0xcc"
  "sub_byte 0x28 = 0x34" "sub_byte 0x29 = 0xa5" "sub_byte 0x2a = 0xe5" "sub_byte 0x2b = 0xf1"
  "sub_byte 0x2c = 0x71" "sub_byte 0x2d = 0xd8" "sub_byte 0x2e = 0x31" "sub_byte 0x2f = 0x15"
  "sub_byte 0x30 = 0x04" "sub_byte 0x31 = 0xc7" "sub_byte 0x32 = 0x23" "sub_byte 0x33 = 0xc3"
  "sub_byte 0x34 = 0x18" "sub_byte 0x35 = 0x96" "sub_byte 0x36 = 0x05" "sub_byte 0x37 = 0x9a"
  "sub_byte 0x38 = 0x07" "sub_byte 0x39 = 0x12" "sub_byte 0x3a = 0x80" "sub_byte 0x3b = 0xe2"
  "sub_byte 0x3c = 0xeb" "sub_byte 0x3d = 0x27" "sub_byte 0x3e = 0xb2" "sub_byte 0x3f = 0x75"
  "sub_byte 0x40 = 0x09" "sub_byte 0x41 = 0x83" "sub_byte 0x42 = 0x2c" "sub_byte 0x43 = 0x1a"
  "sub_byte 0x44 = 0x1b" "sub_byte 0x45 = 0x6e" "sub_byte 0x46 = 0x5a" "sub_byte 0x47 = 0xa0"
  "sub_byte 0x48 = 0x52" "sub_byte 0x49 = 0x3b" "sub_byte 0x4a = 0xd6" "sub_byte 0x4b = 0xb3"
  "sub_byte 0x4c = 0x29" "sub_byte 0x4d = 0xe3" "sub_byte 0x4e = 0x2f" "sub_byte 0x4f = 0x84"
  "sub_byte 0x50 = 0x53" "sub_byte 0x51 = 0xd1" "sub_byte 0x52 = 0x00" "sub_byte 0x53 = 0xed"
  "sub_byte 0x54 = 0x20" "sub_byte 0x55 = 0xfc" "sub_byte 0x56 = 0xb1" "sub_byte 0x57 = 0x5b"
  "sub_byte 0x58 = 0x6a" "sub_byte 0x59 = 0xcb" "sub_byte 0x5a = 0xbe" "sub_byte 0x5b = 0x39"
  "sub_byte 0x5c = 0x4a" "sub_byte 0x5d = 0x4c" "sub_byte 0x5e = 0x58" "sub_byte 0x5f = 0xcf"
  "sub_byte 0x60 = 0xd0" "sub_byte 0x61 = 0xef" "sub_byte 0x62 = 0xaa" "sub_byte 0x63 = 0xfb"
  "sub_byte 0x64 = 0x43" "sub_byte 0x65 = 0x4d" "sub_byte 0x66 = 0x33" "sub_byte 0x67 = 0x85"
  "sub_byte 0x68 = 0x45" "sub_byte 0x69 = 0xf9" "sub_byte 0x6a = 0x02" "sub_byte 0x6b = 0x7f"
  "sub_byte 0x6c = 0x50" "sub_byte 0x6d = 0x3c" "sub_byte 0x6e = 0x9f" "sub_byte 0x6f = 0xa8"
  "sub_byte 0x70 = 0x51" "sub_byte 0x71 = 0xa3" "sub_byte 0x72 = 0x40" "sub_byte 0x73 = 0x8f"
  "sub_byte 0x74 = 0x92" "sub_byte 0x75 = 0x9d" "sub_byte 0x76 = 0x38" "sub_byte 0x77 = 0xf5"
  "sub_byte 0x78 = 0xbc" "sub_byte 0x79 = 0xb6" "sub_byte 0x7a = 0xda" "sub_byte 0x7b = 0x21"
  "sub_byte 0x7c = 0x10" "sub_byte 0x7d = 0xff" "sub_byte 0x7e = 0xf3" "sub_byte 0x7f = 0xd2"
  "sub_byte 0x80 = 0xcd" "sub_byte 0x81 = 0x0c" "sub_byte 0x82 = 0x13" "sub_byte 0x83 = 0xec"
  "sub_byte 0x84 = 0x5f" "sub_byte 0x85 = 0x97" "sub_byte 0x86 = 0x44" "sub_byte 0x87 = 0x17"
  "sub_byte 0x88 = 0xc4" "sub_byte 0x89 = 0xa7" "sub_byte 0x8a = 0x7e" "sub_byte 0x8b = 0x3d"
  "sub_byte 0x8c = 0x64" "sub_byte 0x8d = 0x5d" "sub_byte 0x8e = 0x19" "sub_byte 0x8f = 0x73"
  "sub_byte 0x90 = 0x60" "sub_byte 0x91 = 0x81" "sub_byte 0x92 = 0x4f" "sub_byte 0x93 = 0xdc"
  "sub_byte 0x94 = 0x22" "sub_byte 0x95 = 0x2a" "sub_byte 0x96 = 0x90" "sub_byte 0x97 = 0x88"
  "sub_byte 0x98 = 0x46" "sub_byte 0x99 = 0xee" "sub_byte 0x9a = 0xb8" "sub_byte 0x9b = 0x14"
  "sub_byte 0x9c = 0xde" "sub_byte 0x9d = 0x5e" "sub_byte 0x9e = 0x0b" "sub_byte 0x9f = 0xdb"
  "sub_byte 0xa0 = 0xe0" "sub_byte 0xa1 = 0x32" "sub_byte 0xa2 = 0x3a" "sub_byte 0xa3 = 0x0a"
  "sub_byte 0xa4 = 0x49" "sub_byte 0xa5 = 0x06" "sub_byte 0xa6 = 0x24" "sub_byte 0xa7 = 0x5c"
  "sub_byte 0xa8 = 0xc2" "sub_byte 0xa9 = 0xd3" "sub_byte 0xaa = 0xac" "sub_byte 0xab = 0x62"
  "sub_byte 0xac = 0x91" "sub_byte 0xad = 0x95" "sub_byte 0xae = 0xe4" "sub_byte 0xaf = 0x79"
  "sub_byte 0xb0 = 0xe7" "sub_byte 0xb1 = 0xc8" "sub_byte 0xb2 = 0x37" "sub_byte 0xb3 = 0x6d"
  "sub_byte 0xb4 = 0x8d" "sub_byte 0xb5 = 0xd5" "sub_byte 0xb6 = 0x4e" "sub_byte 0xb7 = 0xa9"
  "sub_byte 0xb8 = 0x6c" "sub_byte 0xb9 = 0x56" "sub_byte 0xba = 0xf4" "sub_byte 0xbb = 0xea"
  "sub_byte 0xbc = 0x65" "sub_byte 0xbd = 0x7a" "sub_byte 0xbe = 0xae" "sub_byte 0xbf = 0x08"
  "sub_byte 0xc0 = 0xba" "sub_byte 0xc1 = 0x78" "sub_byte 0xc2 = 0x25" "sub_byte 0xc3 = 0x2e"
  "sub_byte 0xc4 = 0x1c" "sub_byte 0xc5 = 0xa6" "sub_byte 0xc6 = 0xb4" "sub_byte 0xc7 = 0xc6"
  "sub_byte 0xc8 = 0xe8" "sub_byte 0xc9 = 0xdd" "sub_byte 0xca = 0x74" "sub_byte 0xcb = 0x1f"
  "sub_byte 0xcc = 0x4b" "sub_byte 0xcd = 0xbd" "sub_byte 0xce = 0x8b" "sub_byte 0xcf = 0x8a"
  "sub_byte 0xd0 = 0x70" "sub_byte 0xd1 = 0x3e" "sub_byte 0xd2 = 0xb5" "sub_byte 0xd3 = 0x66"
  "sub_byte 0xd4 = 0x48" "sub_byte 0xd5 = 0x03" "sub_byte 0xd6 = 0xf6" "sub_byte 0xd7 = 0x0e"
  "sub_byte 0xd8 = 0x61" "sub_byte 0xd9 = 0x35" "sub_byte 0xda = 0x57" "sub_byte 0xdb = 0xb9"
  "sub_byte 0xdc = 0x86" "sub_byte 0xdd = 0xc1" "sub_byte 0xde = 0x1d" "sub_byte 0xdf = 0x9e"
  "sub_byte 0xe0 = 0xe1" "sub_byte 0xe1 = 0xf8" "sub_byte 0xe2 = 0x98" "sub_byte 0xe3 = 0x11"
  "sub_byte 0xe4 = 0x69" "sub_byte 0xe5 = 0xd9" "sub_byte 0xe6 = 0x8e" "sub_byte 0xe7 = 0x94"
  "sub_byte 0xe8 = 0x9b" "sub_byte 0xe9 = 0x1e" "sub_byte 0xea = 0x87" "sub_byte 0xeb = 0xe9"
  "sub_byte 0xec = 0xce" "sub_byte 0xed = 0x55" "sub_byte 0xee = 0x28" "sub_byte 0xef = 0xdf"
  "sub_byte 0xf0 = 0x8c" "sub_byte 0xf1 = 0xa1" "sub_byte 0xf2 = 0x89" "sub_byte 0xf3 = 0x0d"
  "sub_byte 0xf4 = 0xbf" "sub_byte 0xf5 = 0xe6" "sub_byte 0xf6 = 0x42" "sub_byte 0xf7 = 0x68"
  "sub_byte 0xf8 = 0x41" "sub_byte 0xf9 = 0x99" "sub_byte 0xfa = 0x2d" "sub_byte 0xfb = 0x0f"
  "sub_byte 0xfc = 0xb0" "sub_byte 0xfd = 0x54" "sub_byte 0xfe = 0xbb" "sub_byte 0xff = 0x16"
  by (simp_all add: sub_byte_def sbox_table_def)

lemma inv_sub_byte_numeral:
  "inv_sub_byte 0x00 = 0x52" "inv_sub_byte 0x01 = 0x09" "inv_sub_byte 0x02 = 0x6a" "inv_sub_byte 0x03 = 0xd5"
  "inv_sub_byte 0x04 = 0x30" "inv_sub_byte 0x05 = 0x36" "inv_sub_byte 0x06 = 0xa5" "inv_sub_byte 0x07 = 0x38"
  "inv_sub_byte 0x08 = 0xbf" "inv_sub_byte 0x09 = 0x40" "inv_sub_byte 0x0a = 0xa3" "inv_sub_byte 0x0b = 0x9e"
  "inv_sub_byte 0x0c = 0x81" "inv_sub_byte 0x0d = 0xf3" "inv_sub_byte 0x0e = 0xd7" "inv_sub_byte 0x0f = 0xfb"
  "inv_sub_byte 0x10 = 0x7c" "inv_sub_byte 0x11 = 0xe3" "inv_sub_byte 0x12 = 0x39" "inv_sub_byte 0x13 = 0x82"
  "inv_sub_byte 0x14 = 0x9b" "inv_sub_byte 0x15 = 0x2f" "inv_sub_byte 0x16 = 0xff" "inv_sub_byte 0x17 = 0x87"
  "inv_sub_byte 0x18 = 0x34" "inv_sub_byte 0x19 = 0x8e" "inv_sub_byte 0x1a = 0x43" "inv_sub_byte 0x1b = 0x44"
  "inv_sub_byte 0x1c = 0xc4" "inv_sub_byte 0x1d = 0xde" "inv_sub_byte 0x1e = 0xe9" "inv_sub_byte 0x1f = 0xcb"
  "inv_sub_byte 0x20 = 0x54" "inv_sub_byte 0x21 = 0x7b" "inv_sub_byte 0x22 = 0x94" "inv_sub_byte 0x23 = 0x32"
  "inv_sub_byte 0x24 = 0xa6" "inv_sub_byte 0x25 = 0xc2" "inv_sub_byte 0x26 = 0x23" "inv_sub_byte 0x27 = 0x3d"
  "inv_sub_byte 0x28 = 0xee" "inv_sub_byte 0x29 = 0x4c" "inv_sub_byte 0x2a = 0x95" "inv_sub_byte 0x2b = 0x0b"
  "inv_sub_byte 0x2c = 0x42" "inv_sub_byte 0x2d = 0xfa" "inv_sub_byte 0x2e = 0xc3" "inv_sub_byte 0x2f = 0x4e"
  "inv_sub_byte 0x30 = 0x08" "inv_sub_byte 0x31 = 0x2e" "inv_sub_byte 0x32 = 0xa1" "inv_sub_byte 0x33 = 0x66"
  "inv_sub_byte 0x34 = 0x28" "inv_sub_byte 0x35 = 0xd9" "inv_sub_byte 0x36 = 0x24" "inv_sub_byte 0x37 = 0xb2"
  "inv_sub_byte 0x38 = 0x76" "inv_sub_byte 0x39 = 0x5b" "inv_sub_byte 0x3a = 0xa2" "inv_sub_byte 0x3b = 0x49"
  "inv_sub_byte 0x3c = 0x6d" "inv_sub_byte 0x3d = 0x8b" "inv_sub_byte 0x3e = 0xd1" "inv_sub_byte 0x3f = 0x25"
  "inv_sub_byte 0x40 = 0x72" "inv_sub_byte 0x41 = 0xf8" "inv_sub_byte 0x42 = 0xf6" "inv_sub_byte 0x43 = 0x64"
  "inv_sub_byte 0x44 = 0x86" "inv_sub_byte 0x45 = 0x68" "inv_sub_byte 0x46 = 0x98" "inv_sub_byte 0x47 = 0x16"
  "inv_sub_byte 0x48 = 0xd4" "inv_sub_byte 0x49 = 0xa4" "inv_sub_byte 0x4a = 0x5c" "inv_sub_byte 0x4b = 0xcc"
  "inv_sub_byte 0x4c = 0x5d" "inv_sub_byte 0x4d = 0x65" "inv_sub_byte 0x4e = 0xb6" "inv_sub_byte 0x4f = 0x92"
  "inv_sub_byte 0x50 = 0x6c" "inv_sub_byte 0x51 = 0x70" "inv_sub_byte 0x52 = 0x48" "inv_sub_byte 0x53 = 0x50"
  "inv_sub_byte 0x54 = 0xfd" "inv_sub_byte 0x55 = 0xed" "inv_sub_byte 0x56 = 0xb9" "inv_sub_byte 0x57 = 0xda"
  "inv_sub_byte 0x58 = 0x5e" "inv_sub_byte 0x59 = 0x15" "inv_sub_byte 0x5a = 0x46" "inv_sub_byte 0x5b = 0x57"
  "inv_sub_byte 0x5c = 0xa7" "inv_sub_byte 0x5d = 0x8d" "inv_sub_byte 0x5e = 0x9d" "inv_sub_byte 0x5f = 0x84"
  "inv_sub_byte 0x60 = 0x90" "inv_sub_byte 0x61 = 0xd8" "inv_sub_byte 0x62 = 0xab" "inv_sub_byte 0x63 = 0x00"
  "inv_sub_byte 0x64 = 0x8c" "inv_sub_byte 0x65 = 0xbc" "inv_sub_byte 0x66 = 0xd3" "inv_sub_byte 0x67 = 0x0a"
  "inv_sub_byte 0x68 = 0xf7" "inv_sub_byte 0x69 = 0xe4" "inv_sub_byte 0x6a = 0x58" "inv_sub_byte 0x6b = 0x05"
  "inv_sub_byte 0x6c = 0xb8" "inv_sub_byte 0x6d = 0xb3" "inv_sub_byte 0x6e = 0x45" "inv_sub_byte 0x6f = 0x06"
  "inv_sub_byte 0x70 = 0xd0" "inv_sub_byte 0x71 = 0x2c" "inv_sub_byte 0x72 = 0x1e" "inv_sub_byte 0x73 = 0x8f"
  "inv_sub_byte 0x74 = 0xca" "inv_sub_byte 0x75 = 0x3f" "inv_sub_byte 0x76 = 0x0f" "inv_sub_byte 0x77 = 0x02"
  "inv_sub_byte 0x78 = 0xc1" "inv_sub_byte 0x79 = 0xaf" "inv_sub_byte 0x7a = 0xbd" "inv_sub_byte 0x7b = 0x03"
  "inv_sub_byte 0x7c = 0x01" "inv_sub_byte 0x7d = 0x13" "inv_sub_byte 0x7e = 0x8a" "inv_sub_byte 0x7f = 0x6b"
  "inv_sub_byte 0x80 = 0x3a" "inv_sub_byte 0x81 = 0x91" "inv_sub_byte 0x82 = 0x11" "inv_sub_byte 0x83 = 0x41"
  "inv_sub_byte 0x84 = 0x4f" "inv_sub_byte 0x85 = 0x67" "inv_sub_byte 0x86 = 0xdc" "inv_sub_byte 0x87 = 0xea"
  "inv_sub_byte 0x88 = 0x97" "inv_sub_byte 0x89 = 0xf2" "inv_sub_byte 0x8a = 0xcf" "inv_sub_byte 0x8b = 0xce"
  "inv_sub_byte 0x8c = 0xf0" "inv_sub_byte 0x8d = 0xb4" "inv_sub_byte 0x8e = 0xe6" "inv_sub_byte 0x8f = 0x73"
  "inv_sub_byte 0x90 = 0x96" "inv_sub_byte 0x91 = 0xac" "inv_sub_byte 0x92 = 0x74" "inv_sub_byte 0x93 = 0x22"
  "inv_sub_byte 0x94 = 0xe7" "inv_sub_byte 0x95 = 0xad" "inv_sub_byte 0x96 = 0x35" "inv_sub_byte 0x97 = 0x85"
  "inv_sub_byte 0x98 = 0xe2" "inv_sub_byte 0x99 = 0xf9" "inv_sub_byte 0x9a = 0x37" "inv_sub_byte 0x9b = 0xe8"
  "inv_sub_byte 0x9c = 0x1c" "inv_sub_byte 0x9d = 0x75" "inv_sub_byte 0x9e = 0xdf" "inv_sub_byte 0x9f = 0x6e"
  "inv_sub_byte 0xa0 = 0x47" "inv_sub_byte 0xa1 = 0xf1" "inv_sub_byte 0xa2 = 0x1a" "inv_sub_byte 0xa3 = 0x71"
  "inv_sub_byte 0xa4 = 0x1d" "inv_sub_byte 0xa5 = 0x29" "inv_sub_byte 0xa6 = 0xc5" "inv_sub_byte 0xa7 = 0x89"
  "inv_sub_byte 0xa8 = 0x6f" "inv_sub_byte 0xa9 = 0xb7" "inv_sub_byte 0xaa = 0x62" "inv_sub_byte 0xab = 0x0e"
  "inv_sub_byte 0xac = 0xaa" "inv_sub_byte 0xad = 0x18" "inv_sub_byte 0xae = 0xbe" "inv_sub_byte 0xaf = 0x1b"
  "inv_sub_byte 0xb0 = 0xfc" "inv_sub_byte 0xb1 = 0x56" "inv_sub_byte 0xb2 = 0x3e" "inv_sub_byte 0xb3 = 0x4b"
  "inv_sub_byte 0xb4 = 0xc6" "inv_sub_byte 0xb5 = 0xd2" "inv_sub_byte 0xb6 = 0x79" "inv_sub_byte 0xb7 = 0x20"
  "inv_sub_byte 0xb8 = 0x9a" "inv_sub_byte 0xb9 = 0xdb" "inv_sub_byte 0xba = 0xc0" "inv_sub_byte 0xbb = 0xfe"
  "inv_sub_byte 0xbc = 0x78" "inv_sub_byte 0xbd = 0xcd" "inv_sub_byte 0xbe = 0x5a" "inv_sub_byte 0xbf = 0xf4"
  "inv_sub_byte 0xc0 = 0x1f" "inv_sub_byte 0xc1 = 0xdd" "inv_sub_byte 0xc2 = 0xa8" "inv_sub_byte 0xc3 = 0x33"
  "inv_sub_byte 0xc4 = 0x88" "inv_sub_byte 0xc5 = 0x07" "inv_sub_byte 0xc6 = 0xc7" "inv_sub_byte 0xc7 = 0x31"
  "inv_sub_byte 0xc8 = 0xb1" "inv_sub_byte 0xc9 = 0x12" "inv_sub_byte 0xca = 0x10" "inv_sub_byte 0xcb = 0x59"
  "inv_sub_byte 0xcc = 0x27" "inv_sub_byte 0xcd = 0x80" "inv_sub_byte 0xce = 0xec" "inv_sub_byte 0xcf = 0x5f"
  "inv_sub_byte 0xd0 = 0x60" "inv_sub_byte 0xd1 = 0x51" "inv_sub_byte 0xd2 = 0x7f" "inv_sub_byte 0xd3 = 0xa9"
  "inv_sub_byte 0xd4 = 0x19" "inv_sub_byte 0xd5 = 0xb5" "inv_sub_byte 0xd6 = 0x4a" "inv_sub_byte 0xd7 = 0x0d"
  "inv_sub_byte 0xd8 = 0x2d" "inv_sub_byte 0xd9 = 0xe5" "inv_sub_byte 0xda = 0x7a" "inv_sub_byte 0xdb = 0x9f"
  "inv_sub_byte 0xdc = 0x93" "inv_sub_byte 0xdd = 0xc9" "inv_sub_byte 0xde = 0x9c" "inv_sub_byte 0xdf = 0xef"
  "inv_sub_byte 0xe0 = 0xa0" "inv_sub_byte 0xe1 = 0xe0" "inv_sub_byte 0xe2 = 0x3b" "inv_sub_byte 0xe3 = 0x4d"
  "inv_sub_byte 0xe4 = 0xae" "inv_sub_byte 0xe5 = 0x2a" "inv_sub_byte 0xe6 = 0xf5" "inv_sub_byte 0xe7 = 0xb0"
  "inv_sub_byte 0xe8 = 0xc8" "inv_sub_byte 0xe9 = 0xeb" "inv_sub_byte 0xea = 0xbb" "inv_sub_byte 0xeb = 0x3c"
  "inv_sub_byte 0xec = 0x83" "inv_sub_byte 0xed = 0x53" "inv_sub_byte 0xee = 0x99" "inv_sub_byte 0xef = 0x61"
  "inv_sub_byte 0xf0 = 0x17" "inv_sub_byte 0xf1 = 0x2b" "inv_sub_byte 0xf2 = 0x04" "inv_sub_byte 0xf3 = 0x7e"
  "inv_sub_byte 0xf4 = 0xba" "inv_sub_byte 0xf5 = 0x77" "inv_sub_byte 0xf6 = 0xd6" "inv_sub_byte 0xf7 = 0x26"
  "inv_sub_byte 0xf8 = 0xe1" "inv_sub_byte 0xf9 = 0x69" "inv_sub_byte 0xfa = 0x14" "inv_sub_byte 0xfb = 0x63"
  "inv_sub_byte 0xfc = 0x55" "inv_sub_byte 0xfd = 0x21" "inv_sub_byte 0xfe = 0x0c" "inv_sub_byte 0xff = 0x7d"
  by (simp_all add: inv_sub_byte_def inv_sbox_table_def)

lemma xtime_numeral:
  "xtime 0x00 = 0x00" "xtime 0x01 = 0x02" "xtime 0x02 = 0x04" "xtime 0x03 = 0x06"
  "xtime 0x04 = 0x08" "xtime 0x05 = 0x0a" "xtime 0x06 = 0x0c" "xtime 0x07 = 0x0e"
  "xtime 0x08 = 0x10" "xtime 0x09 = 0x12" "xtime 0x0a = 0x14" "xtime 0x0b = 0x16"
  "xtime 0x0c = 0x18" "xtime 0x0d = 0x1a" "xtime 0x0e = 0x1c" "xtime 0x0f = 0x1e"
  "xtime 0x10 = 0x20" "xtime 0x11 = 0x22" "xtime 0x12 = 0x24" "xtime 0x13 = 0x26"
  "xtime 0x14 = 0x28" "xtime 0x15 = 0x2a" "xtime 0x16 = 0x2c" "xtime 0x17 = 0x2e"
  "xtime 0x18 = 0x30" "xtime 0x19 = 0x32" "xtime 0x1a = 0x34" "xtime 0x1b = 0x36"
  "xtime 0x1c = 0x38" "xtime 0x1d = 0x3a" "xtime 0x1e = 0x3c" "xtime 0x1f = 0x3e"
  "xtime 0x20 = 0x40" "xtime 0x21 = 0x42" "xtime 0x22 = 0x44" "xtime 0x23 = 0x46"
  "xtime 0x24 = 0x48" "xtime 0x25 = 0x4a" "xtime 0x26 = 0x4c" "xtime 0x27 = 0x4e"
  "xtime 0x28 = 0x50" "xtime 0x29 = 0x52" "xtime 0x2a = 0x54" "xtime 0x2b = 0x56"
  "xtime 0x2c = 0x58" "xtime 0x2d = 0x5a" "xtime 0x2e = 0x5c" "xtime 0x2f = 0x5e"
  "xtime 0x30 = 0x60" "xtime 0x31 = 0x62" "xtime 0x32 = 0x64" "xtime 0x33 = 0x66"
  "xtime 0x34 = 0x68" "xtime 0x35 = 0x6a" "xtime 0x36 = 0x6c" "xtime 0x37 = 0x6e"
  "xtime 0x38 = 0x70" "xtime 0x39 = 0x72" "xtime 0x3a = 0x74" "xtime 0x3b = 0x76"
  "xtime 0x3c = 0x78" "xtime 0x3d = 0x7a" "xtime 0x3e = 0x7c" "xtime 0x3f = 0x7e"
  "xtime 0x40 = 0x80" "xtime 0x41 = 0x82" "xtime 0x42 = 0x84" "xtime 0x43 = 0x86"
  "xtime 0x44 = 0x88" "xtime 0x45 = 0x8a" "xtime 0x46 = 0x8c" "xtime 0x47 = 0x8e"
  "xtime 0x48 = 0x90" "xtime 0x49 = 0x92" "xtime 0x4a = 0x94" "xtime 0x4b = 0x96"
  "xtime 0x4c = 0x98" "xtime 0x4d = 0x9a" "xtime 0x4e = 0x9c" "xtime 0x4f = 0x9e"
  "xtime 0x50 = 0xa0" "xtime 0x51 = 0xa2" "xtime 0x52 = 0xa4" "xtime 0x53 = 0xa6"
  "xtime 0x54 = 0xa8" "xtime 0x55 = 0xaa" "xtime 0x56 = 0xac" "xtime 0x57 = 0xae"
  "xtime 0x58 = 0xb0" "xtime 0x59 = 0xb2" "xtime 0x5a = 0xb4" "xtime 0x5b = 0xb6"
  "xtime 0x5c = 0xb8" "xtime 0x5d = 0xba" "xtime 0x5e = 0xbc" "xtime 0x5f = 0xbe"
  "xtime 0x60 = 0xc0" "xtime 0x61 = 0xc2" "xtime 0x62 = 0xc4" "xtime 0x63 = 0xc6"
  "xtime 0x64 = 0xc8" "xtime 0x65 = 0xca" "xtime 0x66 = 0xcc" "xtime 0x67 = 0xce"
  "xtime 0x68 = 0xd0" "xtime 0x69 = 0xd2" "xtime 0x6a = 0xd4" "xtime 0x6b = 0xd6"
  "xtime 0x6c = 0xd8" "xtime 0x6d = 0xda" "xtime 0x6e = 0xdc" "xtime 0x6f = 0xde"
  "xtime 0x70 = 0xe0" "xtime 0x71 = 0xe2" "xtime 0x72 = 0xe4" "xtime 0x73 = 0xe6"
  "xtime 0x74 = 0xe8" "xtime 0x75 = 0xea" "xtime 0x76 = 0xec" "xtime 0x77 = 0xee"
  "xtime 0x78 = 0xf0" "xtime 0x79 = 0xf2" "xtime 0x7a = 0xf4" "xtime 0x7b = 0xf6"
  "xtime 0x7c = 0xf8" "xtime 0x7d = 0xfa" "xtime 0x7e = 0xfc" "xtime 0x7f = 0xfe"
  "xtime 0x80 = 0x1b" "xtime 0x81 = 0x19" "xtime 0x82 = 0x1f" "xtime 0x83 = 0x1d"
  "xtime 0x84 = 0x13" "xtime 0x85 = 0x11" "xtime 0x86 = 0x17" "xtime 0x87 = 0x15"
  "xtime 0x88 = 0x0b" "xtime 0x89 = 0x09" "xtime 0x8a = 0x0f" "xtime 0x8b = 0x0d"
  "xtime 0x8c = 0x03" "xtime 0x8d = 0x01" "xtime 0x8e = 0x07" "xtime 0x8f = 0x05"
  "xtime 0x90 = 0x3b" "xtime 0x91 = 0x39" "xtime 0x92 = 0x3f" "xtime 0x93 = 0x3d"
  "xtime 0x94 = 0x33" "xtime 0x95 = 0x31" "xtime 0x96 = 0x37" "xtime 0x97 = 0x35"
  "xtime 0x98 = 0x2b" "xtime 0x99 = 0x29" "xtime 0x9a = 0x2f" "xtime 0x9b = 0x2d"
  "xtime 0x9c = 0x23" "xtime 0x9d = 0x21" "xtime 0x9e = 0x27" "xtime 0x9f = 0x25"
  "xtime 0xa0 = 0x5b" "xtime 0xa1 = 0x59" "xtime 0xa2 = 0x5f" "xtime 0xa3 = 0x5d"
  "xtime 0xa4 = 0x53" "xtime 0xa5 = 0x51" "xtime 0xa6 = 0x57" "xtime 0xa7 = 0x55"
  "xtime 0xa8 = 0x4b" "xtime 0xa9 = 0x49" "xtime 0xaa = 0x4f" "xtime 0xab = 0x4d"
  "xtime 0xac = 0x43" "xtime 0xad = 0x41" "xtime 0xae = 0x47" "xtime 0xaf = 0x45"
  "xtime 0xb0 = 0x7b" "xtime 0xb1 = 0x79" "xtime 0xb2 = 0x7f" "xtime 0xb3 = 0x7d"
  "xtime 0xb4 = 0x73" "xtime 0xb5 = 0x71" "xtime 0xb6 = 0x77" "xtime 0xb7 = 0x75"
  "xtime 0xb8 = 0x6b" "xtime 0xb9 = 0x69" "xtime 0xba = 0x6f" "xtime 0xbb = 0x6d"
  "xtime 0xbc = 0x63" "xtime 0xbd = 0x61" "xtime 0xbe = 0x67" "xtime 0xbf = 0x65"
  "xtime 0xc0 = 0x9b" "xtime 0xc1 = 0x99" "xtime 0xc2 = 0x9f" "xtime 0xc3 = 0x9d"
  "xtime 0xc4 = 0x93" "xtime 0xc5 = 0x91" "xtime 0xc6 = 0x97" "xtime 0xc7 = 0x95"
  "xtime 0xc8 = 0x8b" "xtime 0xc9 = 0x89" "xtime 0xca = 0x8f" "xtime 0xcb = 0x8d"
  "xtime 0xcc = 0x83" "xtime 0xcd = 0x81" "xtime 0xce = 0x87" "xtime 0xcf = 0x85"
  "xtime 0xd0 = 0xbb" "xtime 0xd1 = 0xb9" "xtime 0xd2 = 0xbf" "xtime 0xd3 = 0xbd"
  "xtime 0xd4 = 0xb3" "xtime 0xd5 = 0xb1" "xtime 0xd6 = 0xb7" "xtime 0xd7 = 0xb5"
  "xtime 0xd8 = 0xab" "xtime 0xd9 = 0xa9" "xtime 0xda = 0xaf" "xtime 0xdb = 0xad"
  "xtime 0xdc = 0xa3" "xtime 0xdd = 0xa1" "xtime 0xde = 0xa7" "xtime 0xdf = 0xa5"
  "xtime 0xe0 = 0xdb" "xtime 0xe1 = 0xd9" "xtime 0xe2 = 0xdf" "xtime 0xe3 = 0xdd"
  "xtime 0xe4 = 0xd3" "xtime 0xe5 = 0xd1" "xtime 0xe6 = 0xd7" "xtime 0xe7 = 0xd5"
  "xtime 0xe8 = 0xcb" "xtime 0xe9 = 0xc9" "xtime 0xea = 0xcf" "xtime 0xeb = 0xcd"
  "xtime 0xec = 0xc3" "xtime 0xed = 0xc1" "xtime 0xee = 0xc7" "xtime 0xef = 0xc5"
  "xtime 0xf0 = 0xfb" "xtime 0xf1 = 0xf9" "xtime 0xf2 = 0xff" "xtime 0xf3 = 0xfd"
  "xtime 0xf4 = 0xf3" "xtime 0xf5 = 0xf1" "xtime 0xf6 = 0xf7" "xtime 0xf7 = 0xf5"
  "xtime 0xf8 = 0xeb" "xtime 0xf9 = 0xe9" "xtime 0xfa = 0xef" "xtime 0xfb = 0xed"
  "xtime 0xfc = 0xe3" "xtime 0xfd = 0xe1" "xtime 0xfe = 0xe7" "xtime 0xff = 0xe5"
  by (simp_all add: xtime_def)

section \<open>The block cipher is invertible\<close>

lemma all_less_numeral:
  "(\<forall>i<numeral k. P i) = (P (pred_numeral k) \<and> (\<forall>i<pred_numeral k. P i))"
  by (simp add: numeral_eq_Suc All_less_Suc)

lemma all_less_one: "(\<forall>i<(1::nat). P i) = P 0"
  by simp

lemma byte_cases:
  assumes "\<forall>n<256. P (of_nat n :: byte)"
  shows "P x"
proof -
  have "unat x < 2 ^ LENGTH(8)" by (rule unsigned_less)
  then have "unat x < 256" by simp
  with assms have "P (of_nat (unat x))" by blast
  then show ?thesis by simp
qed

lemma inv_sub_byte_sub_byte: "inv_sub_byte (sub_byte x) = x"
  by (rule byte_cases [where x = x])
     (simp add: all_less_numeral all_less_one sub_byte_numeral inv_sub_byte_numeral)

lemma inv_sub_bytes_sub_bytes: "inv_sub_bytes (sub_bytes s) = s"
  by (simp add: inv_sub_bytes_def sub_bytes_def inv_sub_byte_sub_byte cong: map_cong)

lemma xor_cancel: "x XOR (x XOR y) = (y::byte)"
  by (simp add: xor.assoc [symmetric])

lemmas xor_ac = xor.assoc xor.commute xor.left_commute bit.xor_self xor_cancel
  xor.left_neutral xor.right_neutral

lemma xtime_xor: "xtime (a XOR b) = xtime a XOR xtime b"
proof -
  have p: "push_bit 1 (a XOR b) = push_bit 1 a XOR push_bit 1 b"
    by (rule push_bit_xor)
  have b: "bit (a XOR b) 7 = (bit a 7 \<noteq> bit b 7)"
    by (simp add: bit_xor_iff)
  show ?thesis
    unfolding xtime_def p b
    by (cases "bit a 7"; cases "bit b 7") (simp_all only: if_True if_False simp_thms xor_ac)
qed

lemmas mul_defs = mul2_def mul3_def mul9_def mul11_def mul13_def mul14_def

lemma inv_mix_column:
  fixes a b c d :: byte
  shows "mul14 (mul2 a XOR mul3 b XOR c XOR d) XOR mul11 (a XOR mul2 b XOR mul3 c XOR d) XOR
         mul13 (a XOR b XOR mul2 c XOR mul3 d) XOR mul9 (mul3 a XOR b XOR c XOR mul2 d) = a"
    and "mul9 (mul2 a XOR mul3 b XOR c XOR d) XOR mul14 (a XOR mul2 b XOR mul3 c XOR d) XOR
         mul11 (a XOR b XOR mul2 c XOR mul3 d) XOR mul13 (mul3 a XOR b XOR c XOR mul2 d) = b"
    and "mul13 (mul2 a XOR mul3 b XOR c XOR d) XOR mul9 (a XOR mul2 b XOR mul3 c XOR d) XOR
         mul14 (a XOR b XOR mul2 c XOR mul3 d) XOR mul11 (mul3 a XOR b XOR c XOR mul2 d) = c"
    and "mul11 (mul2 a XOR mul3 b XOR c XOR d) XOR mul13 (a XOR mul2 b XOR mul3 c XOR d) XOR
         mul9 (a XOR b XOR mul2 c XOR mul3 d) XOR mul14 (mul3 a XOR b XOR c XOR mul2 d) = d"
  by (simp_all only: mul_defs xtime_xor xor_ac)

lemma inv_mix_columns_mix_columns: "inv_mix_columns (mix_columns s) = s"
  by (induction s rule: mix_columns.induct) (simp_all add: inv_mix_column)

lemma length_mix_columns: "length (mix_columns s) = length s"
  by (induction s rule: mix_columns.induct) simp_all


lemma length_16_cases:
  assumes "length (s::'a list) = 16"
  obtains a0 a1 a2 a3 a4 a5 a6 a7 a8 a9 a10 a11 a12 a13 a14 a15
  where "s = [a0, a1, a2, a3, a4, a5, a6, a7, a8, a9, a10, a11, a12, a13, a14, a15]"
proof -
  from assms have "s = map (nth s) [0..<16]"
    by (metis map_nth)
  also have "[0..<16] = [0, 1, 2, 3, 4, 5, 6, 7, 8, 9, 10, 11, 12, 13, 14, 15]"
    by (simp add: upt_rec)
  finally show ?thesis
    using that by simp
qed

lemma inv_shift_rows_shift_rows:
  assumes "length s = 16"
  shows "inv_shift_rows (shift_rows s) = s"
proof -
  from assms obtain a0 a1 a2 a3 a4 a5 a6 a7 a8 a9 a10 a11 a12 a13 a14 a15
    where "s = [a0, a1, a2, a3, a4, a5, a6, a7, a8, a9, a10, a11, a12, a13, a14, a15]"
    by (rule length_16_cases)
  then show ?thesis
    by (simp add: shift_rows_def inv_shift_rows_def)
qed

lemma length_shift_rows: "length (shift_rows s) = 16"
  by (simp add: shift_rows_def)

lemma length_sub_bytes: "length (sub_bytes s) = length s"
  by (simp add: sub_bytes_def)

lemma length_xor_bytes: "length (xor_bytes xs ys) = min (length xs) (length ys)"
  by (simp add: xor_bytes_def)

lemma xor_bytes_cancel:
  "length xs \<le> length ys \<Longrightarrow> xor_bytes (xor_bytes xs ys) ys = xs"
proof (induction xs arbitrary: ys)
  case Nil
  then show ?case by (simp add: xor_bytes_def)
next
  case (Cons x xs)
  then obtain y ys' where "ys = y # ys'" by (cases ys) auto
  with Cons show ?case by (simp add: xor_bytes_def xor.assoc)
qed

lemma dec_rounds_enc_rounds:
  assumes "length s = 16" and "\<forall>rk \<in> set rks. length rk = 16"
  shows "dec_rounds rks (enc_rounds rks s) = s"
  using assms
proof (induction rks s rule: enc_rounds.induct)
  case (1 s)
  then show ?case by simp
next
  case (2 rk s)
  then show ?case
    by (simp add: xor_bytes_cancel length_shift_rows inv_shift_rows_shift_rows
        length_sub_bytes inv_sub_bytes_sub_bytes)
next
  case (3 rk rk' rks s)
  let ?t = "xor_bytes (mix_columns (shift_rows (sub_bytes s))) rk"
  from 3 have len: "length ?t = 16"
    by (simp add: length_xor_bytes length_mix_columns length_shift_rows)
  from 3 len have "dec_rounds (rk' # rks) (enc_rounds (rk' # rks) ?t) = ?t"
    by simp
  with 3 show ?case
    by (simp add: xor_bytes_cancel length_mix_columns length_shift_rows
        inv_mix_columns_mix_columns inv_shift_rows_shift_rows length_sub_bytes
        inv_sub_bytes_sub_bytes)
qed

lemma length_key_word: "4 * i + 4 \<le> length w \<Longrightarrow> length (key_word w i) = 4"
  by (simp add: key_word_def)

lemma length_expand_step:
  assumes "length w = 4 * i" and "8 \<le> i"
  shows "length (expand_step w i) = 4 * Suc i"
proof -
  have a: "length (key_word w (i - 1)) = 4" and b: "length (key_word w (i - 8)) = 4"
    using assms by (simp_all add: length_key_word)
  show ?thesis
    using assms a b
    by (simp add: expand_step_def Let_def length_xor_bytes length_sub_bytes rot_word_def rcon_def)
qed

lemma length_expand_upto:
  "length w = 4 * i \<Longrightarrow> 8 \<le> i \<Longrightarrow> i \<le> j \<Longrightarrow> length (foldl expand_step w [i..<j]) = 4 * j"
proof (induction j)
  case 0
  then show ?case by simp
next
  case (Suc j)
  show ?case
  proof (cases "i = Suc j")
    case True
    with Suc.prems show ?thesis by simp
  next
    case False
    with Suc.prems have ij: "i \<le> j" by simp
    with Suc have "length (foldl expand_step w [i..<j]) = 4 * j" by simp
    with ij Suc.prems show ?thesis
      by (simp add: length_expand_step)
  qed
qed

lemma length_key_expansion: "length key = 32 \<Longrightarrow> length (key_expansion key) = 240"
  using length_expand_upto [of key 8 60] by (simp add: key_expansion_def)

lemma round_keys_wf:
  assumes "length key = 32"
  shows "length (round_keys key) = 15" and "\<forall>rk \<in> set (round_keys key). length rk = 16"
  using length_key_expansion [OF assms] by (auto simp: round_keys_def)

lemma keys_ok_round_keys: "length key = 32 \<Longrightarrow> keys_ok (round_keys key)"
  using round_keys_wf [of key] by (auto simp: keys_ok_def)

lemma aes_decrypt_encrypt:
  assumes "keys_ok rks" and "length b = 16"
  shows "aes_decrypt_block rks (aes_encrypt_block rks b) = b"
proof -
  from assms obtain rk rest where rks: "rks = rk # rest" and rk: "length rk = 16"
    and rest: "\<forall>r \<in> set rest. length r = 16"
    by (cases rks) (auto simp: keys_ok_def)
  have "length (xor_bytes b rk) = 16"
    using assms rk by (simp add: length_xor_bytes)
  then have "dec_rounds rest (enc_rounds rest (xor_bytes b rk)) = xor_bytes b rk"
    using rest by (rule dec_rounds_enc_rounds)
  then show ?thesis
    using assms rk by (simp add: aes_decrypt_block_def aes_encrypt_block_def rks xor_bytes_cancel)
qed

lemma length_enc_rounds:
  "length s = 16 \<Longrightarrow> \<forall>rk \<in> set rks. length rk = 16 \<Longrightarrow> length (enc_rounds rks s) = 16"
  by (induction rks s rule: enc_rounds.induct)
     (simp_all add: length_xor_bytes length_mix_columns length_shift_rows)

lemma length_aes_encrypt:
  assumes "keys_ok rks" and "length b = 16"
  shows "length (aes_encrypt_block rks b) = 16"
proof -
  from assms obtain rk rest where rks: "rks = rk # rest" and rk: "length rk = 16"
    and rest: "\<forall>r \<in> set rest. length r = 16"
    by (cases rks) (auto simp: keys_ok_def)
  show ?thesis
    using assms rk rest by (simp add: aes_encrypt_block_def rks length_enc_rounds length_xor_bytes)
qed

section \<open>Base64 round trip\<close>

lemma b64_char_facts:
  "\<forall>n<64. b64_value (b64_char n) = Some n \<and> low_byte (b64_char n) \<noteq> 61 \<and>
     b64_char n \<noteq> colon \<and> unat (b64_char n) < 128"
  by (simp add: all_less_numeral all_less_one b64_char_def b64_value_def low_byte_def colon_def)

lemma b64_value_char: "n < 64 \<Longrightarrow> b64_value (b64_char n) = Some n"
  and b64_char_not_equals: "n < 64 \<Longrightarrow> low_byte (b64_char n) \<noteq> 61"
  and b64_char_not_colon: "n < 64 \<Longrightarrow> b64_char n \<noteq> colon"
  and b64_char_ascii: "n < 64 \<Longrightarrow> unat (b64_char n) < 128"
  using b64_char_facts by blast+

lemma byte_of_unat: "(of_nat (unat (x::byte)) :: byte) = x"
  by simp

lemma unat_byte_less: "unat (x::byte) < 256"
proof -
  have "unat x < 2 ^ LENGTH(8)" by (rule unsigned_less)
  then show ?thesis by simp
qed

lemma split_digit: "(q::nat) div c * (c * m) + q mod c * m = q * m"
proof -
  have "q * m = (q div c * c + q mod c) * m" by simp
  also have "\<dots> = q div c * (c * m) + q mod c * m"
    by (simp only: distrib_right mult.assoc)
  finally show ?thesis by simp
qed

lemma sextets_join:
  fixes n :: nat
  shows "n div 262144 * 262144 + n div 4096 mod 64 * 4096 + n div 64 mod 64 * 64 + n mod 64 = n"
proof -
  define q1 where "q1 = n div 64"
  define q2 where "q2 = q1 div 64"
  have a: "n div 4096 = q2"
    using div_mult2_eq [of n 64 64] by (simp add: q1_def q2_def)
  have b: "n div 262144 = q2 div 64"
    using div_mult2_eq [of n 4096 64] a by simp
  have 1: "q1 * 64 + n mod 64 = n" by (simp add: q1_def)
  have 2: "q2 * 4096 + q1 mod 64 * 64 = q1 * 64"
    using split_digit [of q1 64 64] by (simp add: q2_def)
  have 3: "q2 div 64 * 262144 + q2 mod 64 * 4096 = q2 * 4096"
    using split_digit [of q2 64 4096] by simp
  show ?thesis
    unfolding a b q1_def [symmetric] 3 2 1 ..
qed

lemma bytes_join:
  fixes x y z :: nat
  assumes "x < 256" "y < 256" "z < 256"
  defines "n \<equiv> x * 65536 + y * 256 + z"
  shows "n div 65536 = x" and "n div 256 mod 256 = y" and "n mod 256 = z" and "n < 16777216"
proof -
  have l: "y * 256 + z < 65536" using assms(1-3) by linarith
  show "n div 65536 = x" using l by (simp add: n_def add.assoc)
  have e: "n = (x * 256 + y) * 256 + z" by (simp add: n_def)
  then have d: "n div 256 = x * 256 + y" using assms(3) by simp
  show "n div 256 mod 256 = y" using assms(2) by (simp add: d)
  show "n mod 256 = z" unfolding e by (simp only: mod_mult_self3 mod_less assms(3))
  show "n < 16777216" using assms(1-3) unfolding n_def by linarith
qed


lemma b64_group:
  fixes x y z :: byte
  defines "n \<equiv> unat x * 65536 + unat y * 256 + unat z"
  defines "m \<equiv> n div 262144 * 262144 + n div 4096 mod 64 * 4096 + n div 64 mod 64 * 64 + n mod 64"
  shows "of_nat (m div 65536) = x" and "of_nat (m div 256 mod 256) = y" and "of_nat (m mod 256) = z"
    and "n div 262144 < 64"
proof -
  have mn: "m = n" unfolding m_def by (rule sextets_join)
  note j = bytes_join [OF unat_byte_less [of x] unat_byte_less [of y] unat_byte_less [of z]]
  show "of_nat (m div 65536) = x" "of_nat (m div 256 mod 256) = y" "of_nat (m mod 256) = z"
    unfolding mn n_def by (simp_all only: j byte_of_unat)
  from j(4) show "n div 262144 < 64" unfolding n_def by (simp only: less_mult_imp_div_less numeral_times_numeral semiring_norm num.simps)
qed


lemma b64_group2:
  fixes x y :: byte
  defines "n \<equiv> unat x * 65536 + unat y * 256"
  shows "of_nat ((n div 262144 * 262144 + n div 4096 mod 64 * 4096 + n div 64 mod 64 * 64)
            div 65536) = x"
    and "of_nat ((n div 262144 * 262144 + n div 4096 mod 64 * 4096 + n div 64 mod 64 * 64)
            div 256 mod 256) = y"
    and "n div 262144 < 64"
proof -
  define k where "k = unat x * 65536 + unat y * 256 + unat (0::byte)"
  have kn: "k = n" by (simp add: n_def k_def)
  have "n = (unat x * 1024 + unat y * 4) * 64" by (simp add: n_def)
  then have z: "n mod 64 = 0" by (simp only: mod_mult_self2_is_0)
  note g = b64_group [of x y 0, folded k_def, unfolded kn z add_0_right]
  show "of_nat ((n div 262144 * 262144 + n div 4096 mod 64 * 4096 + n div 64 mod 64 * 64)
            div 65536) = x"
    by (rule g(1))
  show "of_nat ((n div 262144 * 262144 + n div 4096 mod 64 * 4096 + n div 64 mod 64 * 64)
            div 256 mod 256) = y"
    by (rule g(2))
  show "n div 262144 < 64" by (rule g(4))
qed

lemma b64_group1:
  fixes x :: byte
  defines "n \<equiv> unat x * 65536"
  shows "of_nat ((n div 262144 * 262144 + n div 4096 mod 64 * 4096) div 65536) = x"
    and "n div 262144 < 64"
proof -
  define k where "k = unat x * 65536 + unat (0::byte) * 256"
  have kn: "k = n" by (simp add: n_def k_def)
  have "n div 64 = unat x * 16 * 64" by (simp add: n_def)
  then have z: "n div 64 mod 64 = 0" by (simp only: mod_mult_self2_is_0)
  note g = b64_group2 [of x 0, folded k_def, unfolded kn z mult_0 add_0_right]
  show "of_nat ((n div 262144 * 262144 + n div 4096 mod 64 * 4096) div 65536) = x"
    by (rule g(1))
  show "n div 262144 < 64" by (rule g(3))
qed

lemma b64_sextets_char:
  "n < 64 \<Longrightarrow> b64_sextets (b64_char n # s) = n # b64_sextets s"
  by (simp add: b64_sextets_def b64_char_not_equals b64_value_char List.map_filter_simps)

lemma b64_sextets_stop: "b64_sextets (equals_sign # s) = []" "b64_sextets [] = []"
  by (simp_all add: b64_sextets_def low_byte_def equals_sign_def List.map_filter_simps)

lemma mod_64_less: "(k::nat) mod 64 < 64"
  by simp

lemmas b64_unfold = b64_encode.simps b64_bytes.simps Let_def b64_sextets_char b64_sextets_stop
  mod_64_less list.inject simp_thms

lemma b64_decode_encode: "b64_decode (b64_encode xs) = xs"
proof -
  have "b64_bytes (b64_sextets (b64_encode xs)) = xs"
  proof (induction xs rule: b64_encode.induct)
    case (1 x y z rest)
    then show ?case
      by (simp only: b64_unfold b64_group)
  next
    case (2 x y)
    show ?case
      by (simp only: b64_unfold b64_group2)
  next
    case (3 x)
    show ?case
      by (simp only: b64_unfold b64_group1)
  next
    case 4
    show ?case by (simp add: b64_sextets_stop)
  qed
  then show ?thesis by (simp add: b64_decode_def b64_sextets_def)
qed

section \<open>UTF-8 round trip\<close>

lemma utf8_write_append:
  "utf8_write st (xs @ ys) =
     (let (st1, out1) = utf8_write st xs; (st2, out2) = utf8_write st1 ys
      in (st2, out1 @ out2))"
  by (induction xs arbitrary: st) (simp_all add: Let_def split: prod.splits)

lemma unat_byte_of_nat: "b < 256 \<Longrightarrow> unat (of_nat b :: byte) = b"
  by (simp add: unat_of_nat)

lemma utf8_write_1:
  assumes "b0 \<le> 0x7F"
  shows "utf8_write utf8_init (of_nat b0 # rest) =
     (let (st, out) = utf8_write utf8_init rest in (st, code_units b0 @ out))"
proof -
  from assms have b: "unat (of_nat b0 :: byte) = b0" by (simp add: unat_byte_of_nat)
  show ?thesis
    using assms by (auto simp add: b utf8_step_def utf8_lead_def utf8_init_def Let_def)
qed

lemma utf8_write_2:
  assumes "0xC2 \<le> b0" "b0 \<le> 0xDF" "0x80 \<le> b1" "b1 \<le> 0xBF"
  shows "utf8_write utf8_init (of_nat b0 # of_nat b1 # rest) =
     (let (st, out) = utf8_write utf8_init rest
      in (st, code_units (b0 mod 32 * 64 + b1 mod 64) @ out))"
proof -
  from assms have b: "unat (of_nat b0 :: byte) = b0" "unat (of_nat b1 :: byte) = b1"
    by (simp_all add: unat_byte_of_nat)
  show ?thesis
    using assms by (auto simp add: b utf8_step_def utf8_lead_def utf8_init_def Let_def)
qed

lemma utf8_write_3:
  assumes "0xE0 \<le> b0" "b0 \<le> 0xEF" "0x80 \<le> b1" "b1 \<le> 0xBF" "0x80 \<le> b2" "b2 \<le> 0xBF"
    and "b0 = 0xE0 \<longrightarrow> 0xA0 \<le> b1" and "b0 = 0xED \<longrightarrow> b1 \<le> 0x9F"
  shows "utf8_write utf8_init (of_nat b0 # of_nat b1 # of_nat b2 # rest) =
     (let (st, out) = utf8_write utf8_init rest
      in (st, code_units ((b0 mod 16 * 64 + b1 mod 64) * 64 + b2 mod 64) @ out))"
proof -
  from assms have b: "unat (of_nat b0 :: byte) = b0" "unat (of_nat b1 :: byte) = b1"
    "unat (of_nat b2 :: byte) = b2"
    by (simp_all add: unat_byte_of_nat)
  show ?thesis
    using assms by (auto simp add: b utf8_step_def utf8_lead_def utf8_init_def Let_def)
qed

lemma utf8_write_4:
  assumes "0xF0 \<le> b0" "b0 \<le> 0xF4" "0x80 \<le> b1" "b1 \<le> 0xBF" "0x80 \<le> b2" "b2 \<le> 0xBF"
    "0x80 \<le> b3" "b3 \<le> 0xBF"
    and "b0 = 0xF0 \<longrightarrow> 0x90 \<le> b1" and "b0 = 0xF4 \<longrightarrow> b1 \<le> 0x8F"
  shows "utf8_write utf8_init (of_nat b0 # of_nat b1 # of_nat b2 # of_nat b3 # rest) =
     (let (st, out) = utf8_write utf8_init rest
      in (st, code_units (((b0 mod 8 * 64 + b1 mod 64) * 64 + b2 mod 64) * 64 + b3 mod 64) @ out))"
proof -
  from assms have b: "unat (of_nat b0 :: byte) = b0" "unat (of_nat b1 :: byte) = b1"
    "unat (of_nat b2 :: byte) = b2" "unat (of_nat b3 :: byte) = b3"
    by (simp_all add: unat_byte_of_nat)
  show ?thesis
    using assms by (auto simp add: b utf8_step_def utf8_lead_def utf8_init_def Let_def)
qed


lemma lead_mod:
  fixes q :: nat
  shows "q < 32 \<Longrightarrow> (192 + q) mod 32 = q"
    and "q < 16 \<Longrightarrow> (224 + q) mod 16 = q"
    and "q < 8 \<Longrightarrow> (240 + q) mod 8 = q"
    and "q < 64 \<Longrightarrow> (128 + q) mod 64 = q"
proof -
  show "q < 32 \<Longrightarrow> (192 + q) mod 32 = q" using mod_mult_self3 [of 6 32 q] by simp
  show "q < 16 \<Longrightarrow> (224 + q) mod 16 = q" using mod_mult_self3 [of 14 16 q] by simp
  show "q < 8 \<Longrightarrow> (240 + q) mod 8 = q" using mod_mult_self3 [of 30 8 q] by simp
  show "q < 64 \<Longrightarrow> (128 + q) mod 64 = q" using mod_mult_self3 [of 2 64 q] by simp
qed

lemma div_chain:
  fixes c :: nat
  shows "c div 4096 = c div 64 div 64" and "c div 262144 = c div 4096 div 64"
  using div_mult2_eq [of c 64 64] div_mult2_eq [of c 4096 64] by simp_all

lemma digits_64:
  fixes c :: nat
  shows "c div 64 * 64 + c mod 64 = c"
    and "c div 4096 * 64 + c div 64 mod 64 = c div 64"
    and "c div 262144 * 64 + c div 4096 mod 64 = c div 4096"
  by (simp_all add: div_chain)

lemma utf8_decode_2:
  assumes "0x80 \<le> c" "c < 0x800"
  shows "utf8_write utf8_init (utf8_bytes c @ rest) =
     (let (st, out) = utf8_write utf8_init rest in (st, code_units c @ out))"
proof -
  define q where "q = c div 64"
  define r where "r = c mod 64"
  have c: "q * 64 + r = c" unfolding q_def r_def by (rule digits_64)
  have q: "2 \<le> q" "q < 32"
    using assms div_le_mono [of 128 c 64] less_mult_imp_div_less [of c 32 64]
    by (simp_all add: q_def)
  have r: "r < 64" by (simp add: r_def)
  have bytes: "utf8_bytes c = [of_nat (192 + q), of_nat (128 + r)]"
    using assms by (simp add: utf8_bytes_def q_def r_def)
  have cp: "(192 + q) mod 32 * 64 + (128 + r) mod 64 = c"
    using q r c by (simp only: lead_mod)
  show ?thesis
    using utf8_write_2 [of "192 + q" "128 + r" rest] q r
    by (simp only: bytes cp append_Cons append_Nil)
qed


lemma utf8_decode_3:
  assumes "0x800 \<le> c" "c < 0x10000" "\<not> (0xD800 \<le> c \<and> c \<le> 0xDFFF)"
  shows "utf8_write utf8_init (utf8_bytes c @ rest) =
     (let (st, out) = utf8_write utf8_init rest in (st, code_units c @ out))"
proof -
  define q2 where "q2 = c div 4096"
  define q1 where "q1 = c div 64 mod 64"
  define r where "r = c mod 64"
  define d where "d = c div 64"
  have d: "q2 * 64 + q1 = d" unfolding q2_def q1_def d_def by (rule digits_64)
  have c: "d * 64 + r = c" unfolding d_def r_def by (rule digits_64)
  have q2: "q2 < 16"
    using assms less_mult_imp_div_less [of c 16 4096] by (simp add: q2_def)
  have q1: "q1 < 64" and r: "r < 64" by (simp_all add: q1_def r_def)
  have lo: "32 \<le> d"
    using assms div_le_mono [of 2048 c 64] by (simp add: d_def)
  have hi: "d < 864" if "q2 = 13"
  proof -
    have "c div 4096 \<ge> 14" if "57344 \<le> c"
      using div_le_mono [of 57344 c 4096] that by simp
    with \<open>q2 = 13\<close> have "c < 57344" unfolding q2_def by fastforce
    with assms have "c < 864 * 64" by simp
    then show ?thesis unfolding d_def by (rule less_mult_imp_div_less)
  qed
  have b1: "224 + q2 = 224 \<longrightarrow> 160 \<le> 128 + q1" using lo d by auto
  have b2: "224 + q2 = 237 \<longrightarrow> 128 + q1 \<le> 159" using hi d by auto
  have bytes: "utf8_bytes c = [of_nat (224 + q2), of_nat (128 + q1), of_nat (128 + r)]"
    using assms by (simp add: utf8_bytes_def q2_def q1_def r_def)
  have cp: "((224 + q2) mod 16 * 64 + (128 + q1) mod 64) * 64 + (128 + r) mod 64 = c"
    using q2 q1 r c d by (simp only: lead_mod)
  show ?thesis
    using utf8_write_3 [of "224 + q2" "128 + q1" "128 + r" rest] q2 q1 r b1 b2
    by (simp only: bytes cp append_Cons append_Nil)
qed

lemma utf8_decode_4:
  assumes "0x10000 \<le> c" "c < 0x110000"
  shows "utf8_write utf8_init (utf8_bytes c @ rest) =
     (let (st, out) = utf8_write utf8_init rest in (st, code_units c @ out))"
proof -
  define q3 where "q3 = c div 262144"
  define q2 where "q2 = c div 4096 mod 64"
  define q1 where "q1 = c div 64 mod 64"
  define r where "r = c mod 64"
  define d where "d = c div 64"
  define e where "e = c div 4096"
  have e: "q3 * 64 + q2 = e" unfolding q3_def q2_def e_def by (rule digits_64)
  have d: "e * 64 + q1 = d" unfolding e_def q1_def d_def by (rule digits_64)
  have c: "d * 64 + r = c" unfolding d_def r_def by (rule digits_64)
  have q2: "q2 < 64" and q1: "q1 < 64" and r: "r < 64" by (simp_all add: q2_def q1_def r_def)
  have lo: "16 \<le> e"
    using assms div_le_mono [of 65536 c 4096] by (simp add: e_def)
  have hi: "e < 272"
    using assms less_mult_imp_div_less [of c 272 4096] by (simp add: e_def)
  have q3: "q3 \<le> 4" using hi e by linarith
  have b1: "240 + q3 = 240 \<longrightarrow> 144 \<le> 128 + q2" using lo e by auto
  have b2: "240 + q3 = 244 \<longrightarrow> 128 + q2 \<le> 143" using hi e by auto
  have bytes: "utf8_bytes c =
      [of_nat (240 + q3), of_nat (128 + q2), of_nat (128 + q1), of_nat (128 + r)]"
    using assms by (simp add: utf8_bytes_def q3_def q2_def q1_def r_def)
  have q3': "q3 < 8" using q3 by simp
  have cp: "(((240 + q3) mod 8 * 64 + (128 + q2) mod 64) * 64 + (128 + q1) mod 64) * 64 +
      (128 + r) mod 64 = c"
    using q3' q2 q1 r c d e by (simp only: lead_mod)
  show ?thesis
    using utf8_write_4 [of "240 + q3" "128 + q2" "128 + q1" "128 + r" rest] q3 q2 q1 r b1 b2
    by (simp only: bytes cp append_Cons append_Nil)
qed

lemma utf8_decode_bytes:
  assumes "c < 0x110000" "\<not> (0xD800 \<le> c \<and> c \<le> 0xDFFF)"
  shows "utf8_write utf8_init (utf8_bytes c @ rest) =
     (let (st, out) = utf8_write utf8_init rest in (st, code_units c @ out))"
proof -
  consider "c < 0x80" | "0x80 \<le> c" "c < 0x800" | "0x800 \<le> c" "c < 0x10000" | "0x10000 \<le> c"
    by linarith
  then show ?thesis
  proof cases
    case 1
    then show ?thesis
      using utf8_write_1 [of c rest] by (simp add: utf8_bytes_def)
  next
    case 2
    then show ?thesis by (rule utf8_decode_2)
  next
    case 3
    then show ?thesis using assms(2) by (rule utf8_decode_3)
  next
    case 4
    then show ?thesis using assms(1) by (rule utf8_decode_4)
  qed
qed


lemma unat_unit_less: "unat (u::code_unit) < 65536"
proof -
  have "unat u < 2 ^ LENGTH(16)" by (rule unsigned_less)
  then show ?thesis by simp
qed

lemma unit_of_unat: "(of_nat (unat (u::code_unit)) :: code_unit) = u"
  by simp

lemma code_units_single: "code_units (unat u) = [u]"
  using unat_unit_less [of u] by (simp add: code_units_def)

lemma pair_code_point_range:
  assumes "is_high_surrogate u" "is_low_surrogate v"
  shows "0x10000 \<le> pair_code_point u v" "pair_code_point u v < 0x110000"
  using assms by (auto simp add: pair_code_point_def is_high_surrogate_def is_low_surrogate_def)

lemma code_units_pair:
  assumes "is_high_surrogate u" "is_low_surrogate v"
  shows "code_units (pair_code_point u v) = [u, v]"
proof -
  define h where "h = unat u - 0xD800"
  define l where "l = unat v - 0xDC00"
  have h: "0xD800 + h = unat u" and l: "0xDC00 + l = unat v" and l': "l < 1024"
    using assms by (auto simp add: h_def l_def is_high_surrogate_def is_low_surrogate_def)
  have p: "pair_code_point u v = 0x10000 + (h * 1024 + l)"
    by (simp add: pair_code_point_def h_def l_def)
  have "(h * 1024 + l) div 1024 = h" "(h * 1024 + l) mod 1024 = l"
    using l' by simp_all
  then show ?thesis
    unfolding p code_units_def by (simp add: h l)
qed

lemma utf8_decode_encode:
  "well_formed s \<Longrightarrow>
   utf8_write utf8_init (utf8_encode s @ rest) =
     (let (st, out) = utf8_write utf8_init rest in (st, s @ out))"
proof (induction s rule: utf8_encode.induct)
  case 1
  then show ?case by (simp split: prod.splits)
next
  case (2 u)
  then have "\<not> (0xD800 \<le> unat u \<and> unat u \<le> 0xDFFF)"
    by (auto simp: is_high_surrogate_def is_low_surrogate_def)
  moreover have "unat u < 0x110000" using unat_unit_less [of u] by simp
  ultimately show ?case
    using 2 by (simp add: utf8_decode_bytes code_units_single)
next
  case (3 u v us)
  show ?case
  proof (cases "is_high_surrogate u \<and> is_low_surrogate v")
    case True
    with 3 have "well_formed us" by simp
    with 3 True have ih: "utf8_write utf8_init (utf8_encode us @ rest) =
        (let (st, out) = utf8_write utf8_init rest in (st, us @ out))" by simp
    from True show ?thesis
      using pair_code_point_range [of u v]
      by (simp add: utf8_decode_bytes code_units_pair ih split: prod.splits)
  next
    case False
    with 3 have wf: "\<not> is_high_surrogate u" "\<not> is_low_surrogate u" "well_formed (v # us)"
      by simp_all
    with 3 False have ih: "utf8_write utf8_init (utf8_encode (v # us) @ rest) =
        (let (st, out) = utf8_write utf8_init rest in (st, (v # us) @ out))" by simp
    have "unat u < 0x110000" using unat_unit_less [of u] by simp
    moreover from wf have "\<not> (0xD800 \<le> unat u \<and> unat u \<le> 0xDFFF)"
      by (auto simp: is_high_surrogate_def is_low_surrogate_def)
    ultimately have "utf8_write utf8_init (utf8_bytes (unat u) @ utf8_encode (v # us) @ rest) =
        (let (st, out) = utf8_write utf8_init (utf8_encode (v # us) @ rest)
         in (st, code_units (unat u) @ out))"
      by (rule utf8_decode_bytes)
    moreover have "utf8_encode (u # v # us) = utf8_bytes (unat u) @ utf8_encode (v # us)"
      using False wf by simp
    ultimately show ?thesis
      by (simp add: code_units_single ih split: prod.splits)
  qed
qed

lemma utf8_end_encode: "well_formed s \<Longrightarrow> utf8_end utf8_init (utf8_encode s) = s"
  using utf8_decode_encode [of s "[]"] by (simp add: utf8_end_def utf8_init_def)

section \<open>Splitting the payload\<close>

lemma split_colon_nonempty: "split_colon t \<noteq> []"
  by (induction t) (auto split: list.splits)

lemma hd_split_colon: "hd (split_colon t) = takeWhile (\<lambda>c. c \<noteq> colon) t"
  using split_colon_nonempty by (induction t) (auto split: list.splits)

lemma tl_split_colon_none: "colon \<notin> set t \<Longrightarrow> tl (split_colon t) = []"
  using split_colon_nonempty by (induction t) (auto split: list.splits)

lemma split_colon_append:
  "colon \<notin> set a \<Longrightarrow> split_colon (a @ colon # r) = a # split_colon r"
  by (induction a) (auto split: list.splits)

lemma second_part_none: "colon \<notin> set t \<Longrightarrow> second_part t = None"
  by (simp add: second_part_def tl_split_colon_none)

lemma second_part_append:
  "colon \<notin> set a \<Longrightarrow> second_part (a @ colon # r) = Some (takeWhile (\<lambda>c. c \<noteq> colon) r)"
  using split_colon_nonempty [of r] hd_split_colon [of r]
  by (auto simp: second_part_def split_colon_append split: list.splits)

lemma first_colon: "colon \<in> set t \<Longrightarrow> \<exists>a r. t = a @ colon # r \<and> colon \<notin> set a"
  by (metis split_list_first)

lemma decrypt_parts:
  "decrypt k t =
     (case createDecipheriv (utf8_encode k) (b64_decode (takeWhile (\<lambda>c. c \<noteq> colon) t)) of
        Inl e \<Rightarrow> Inl e
      | Inr d \<Rightarrow>
          (case decipher_update d (second_part t) of
             Inl e \<Rightarrow> Inl e
           | Inr (d', decrypted) \<Rightarrow>
               (case decipher_final d' of
                  Inl e \<Rightarrow> Inl e
                | Inr text \<Rightarrow> Inr (decrypted @ text))))"
  unfolding decrypt_def Let_def hd_split_colon second_part_def ..

lemma parts_extra:
  assumes "colon \<in> set t"
  shows "takeWhile (\<lambda>c. c \<noteq> colon) (t @ colon # x) = takeWhile (\<lambda>c. c \<noteq> colon) t"
    and "second_part (t @ colon # x) = second_part t"
proof -
  from assms obtain a r where t: "t = a @ colon # r" and a: "colon \<notin> set a"
    using first_colon by blast
  show "takeWhile (\<lambda>c. c \<noteq> colon) (t @ colon # x) = takeWhile (\<lambda>c. c \<noteq> colon) t"
    using assms by (simp add: takeWhile_append1)
  have "second_part (t @ colon # x) = Some (takeWhile (\<lambda>c. c \<noteq> colon) (r @ colon # x))"
    using second_part_append [OF a, of "r @ colon # x"] by (simp add: t)
  also have "takeWhile (\<lambda>c. c \<noteq> colon) (r @ colon # x) = takeWhile (\<lambda>c. c \<noteq> colon) r"
    by (induction r) auto
  finally show "second_part (t @ colon # x) = second_part t"
    using second_part_append [OF a, of r] by (simp add: t)
qed

lemma split_colon_pieces: "p \<in> set (split_colon t) \<Longrightarrow> colon \<notin> set p"
  by (induction t arbitrary: p) (auto split: if_splits list.splits)

lemma split_colon_no_colon: "colon \<notin> set t \<Longrightarrow> split_colon t = [t]"
  by (induction t) (auto split: list.splits)

lemma decrypt_first_two:
  assumes "split_colon t = a # b # rest"
  shows "decrypt k t = decrypt k (a @ colon # b)"
proof -
  have "colon \<notin> set a" "colon \<notin> set b"
    using split_colon_pieces [of a t] split_colon_pieces [of b t] assms by simp_all
  then have s: "split_colon (a @ colon # b) = [a, b]"
    by (simp add: split_colon_append split_colon_no_colon)
  show ?thesis
    unfolding decrypt_def s assms by (simp only: Let_def list.sel list.case)
qed

section \<open>The two calls of each operation, taken together\<close>

lemma cbc_encrypt_prefix:
  "16 * n \<le> length xs \<Longrightarrow> cbc_encrypt rks ch n (xs @ ys) = cbc_encrypt rks ch n xs"
  by (induction n arbitrary: ch xs) (simp_all add: Let_def)

lemma cbc_encrypt_add:
  "cbc_encrypt rks ch (n + m) xs =
     (let (ch', out1) = cbc_encrypt rks ch n xs;
          (ch'', out2) = cbc_encrypt rks ch' m (drop (16 * n) xs)
      in (ch'', out1 @ out2))"
  by (induction n arbitrary: ch xs) (simp_all add: Let_def split_beta add.commute)

lemma cbc_encrypt_length:
  assumes "keys_ok rks"
  shows "length ch = 16 \<Longrightarrow> 16 * n \<le> length xs \<Longrightarrow>
    length (fst (cbc_encrypt rks ch n xs)) = 16 \<and> length (snd (cbc_encrypt rks ch n xs)) = 16 * n"
proof (induction n arbitrary: ch xs)
  case 0
  then show ?case by simp
next
  case (Suc n)
  let ?c = "aes_encrypt_block rks (xor_bytes (take 16 xs) ch)"
  from Suc.prems have "length (xor_bytes (take 16 xs) ch) = 16"
    by (simp add: length_xor_bytes)
  with assms have c: "length ?c = 16" by (rule length_aes_encrypt)
  from Suc.prems have "16 * n \<le> length (drop 16 xs)" by simp
  with Suc.IH [OF c] c show ?case
    by (simp add: Let_def split_beta)
qed

lemma cbc_decrypt_encrypt:
  assumes "keys_ok rks"
  shows "length ch = 16 \<Longrightarrow> 16 * n \<le> length xs \<Longrightarrow>
    cbc_decrypt rks ch n (snd (cbc_encrypt rks ch n xs) @ rest) =
      (fst (cbc_encrypt rks ch n xs), take (16 * n) xs)"
proof (induction n arbitrary: ch xs)
  case 0
  then show ?case by simp
next
  case (Suc n)
  let ?b = "xor_bytes (take 16 xs) ch"
  let ?c = "aes_encrypt_block rks ?b"
  from Suc.prems have b: "length ?b = 16"
    by (simp add: length_xor_bytes)
  with assms have c: "length ?c = 16" by (rule length_aes_encrypt)
  from assms b have d: "aes_decrypt_block rks ?c = ?b" by (rule aes_decrypt_encrypt)
  from Suc.prems have x: "xor_bytes ?b ch = take 16 xs"
    by (simp add: xor_bytes_cancel)
  from Suc.prems have n: "16 * n \<le> length (drop 16 xs)" by simp
  have t: "take 16 xs @ take (16 * n) (drop 16 xs) = take (16 * Suc n) xs"
    by (simp add: take_add [symmetric] del: take_drop)
  from Suc.IH [OF c n] c d x t show ?case
    by (simp add: Let_def split_beta)
qed


lemma equals_sign_ok: "equals_sign \<noteq> colon" "unat equals_sign < 128"
  by (simp_all add: equals_sign_def colon_def)

lemma b64_encode_chars:
  "c \<in> set (b64_encode xs) \<Longrightarrow> c \<noteq> colon \<and> unat c < 128"
proof (induction xs rule: b64_encode.induct)
  case (1 x y z rest)
  then show ?case
    using b64_group(4) [of x y z]
    by (auto simp: Let_def b64_char_not_colon b64_char_ascii)
next
  case (2 x y)
  then show ?case
    using b64_group2(3) [of x y]
    by (auto simp: Let_def b64_char_not_colon b64_char_ascii equals_sign_ok)
next
  case (3 x)
  then show ?case
    using b64_group1(2) [of x]
    by (auto simp: Let_def b64_char_not_colon b64_char_ascii equals_sign_ok)
next
  case 4
  then show ?case by simp
qed

lemma colon_notin_b64_encode: "colon \<notin> set (b64_encode xs)"
  using b64_encode_chars by blast

lemma b64_encode_append:
  "length xs mod 3 = 0 \<Longrightarrow> b64_encode (xs @ ys) = b64_encode xs @ b64_encode ys"
  by (induction xs rule: b64_encode.induct) (simp_all add: Let_def)

lemma b64_write_end:
  "snd (b64_write [] xs) @ b64_end (fst (b64_write [] xs)) ys = b64_encode (xs @ ys)"
proof -
  define n where "n = length xs - length xs mod 3"
  have "n \<le> length xs" and "n mod 3 = 0"
    by (simp_all add: n_def minus_mod_eq_mult_div)
  then have "length (take n xs) mod 3 = 0"
    by (simp add: min_def)
  then have "b64_encode (take n xs @ (drop n xs @ ys)) =
      b64_encode (take n xs) @ b64_encode (drop n xs @ ys)"
    by (rule b64_encode_append)
  moreover have "take n xs @ (drop n xs @ ys) = xs @ ys"
    by (simp add: append_assoc [symmetric] del: append_assoc)
  ultimately have "b64_encode (take n xs) @ b64_encode (drop n xs @ ys) = b64_encode (xs @ ys)"
    by simp
  then show ?thesis
    by (simp add: b64_write_def b64_end_def Let_def n_def)
qed


lemma pkcs7_pad_length:
  "length (pkcs7_pad xs) = 16 * Suc (length xs div 16)"
proof -
  define q where "q = length xs div 16"
  define r where "r = length xs mod 16"
  have "r < 16" by (simp add: r_def)
  moreover have "length xs = 16 * q + r" by (simp add: q_def r_def)
  ultimately have "length xs + (16 - r) = 16 * Suc q" by simp
  then show ?thesis
    by (simp only: pkcs7_pad_def Let_def length_append length_replicate q_def r_def)
qed

lemma pkcs7_pad_last_block:
  "drop (16 * (length xs div 16)) (pkcs7_pad xs) =
     drop (16 * (length xs div 16)) xs @
     replicate (16 - length (drop (16 * (length xs div 16)) xs))
       (of_nat (16 - length (drop (16 * (length xs div 16)) xs)))"
  by (simp add: pkcs7_pad_def Let_def minus_mult_div_eq_mod)

lemma encrypt_update_final:
  fixes rks iv xs
  defines "c \<equiv> \<lparr>ciph_keys = rks, ciph_chain = iv, ciph_buf = [], ciph_decoder = []\<rparr>"
  shows "snd (encrypt_update c xs) @ encrypt_final (fst (encrypt_update c xs)) =
     snd (cbc_encrypt rks iv (length (pkcs7_pad xs) div 16) (pkcs7_pad xs))"
proof -
  define n where "n = length xs div 16"
  define p where "p = pkcs7_pad xs"
  define ch where "ch = fst (cbc_encrypt rks iv n xs)"
  define out where "out = snd (cbc_encrypt rks iv n xs)"
  define block where "block = drop (16 * n) p"
  have pn: "length p div 16 = n + 1"
    by (simp add: p_def n_def pkcs7_pad_length)
  have le: "16 * n \<le> length xs" by (simp add: n_def)
  have "p = xs @ drop (length xs) p" by (simp add: p_def pkcs7_pad_def Let_def)
  then have pre: "cbc_encrypt rks iv n p = cbc_encrypt rks iv n xs"
    using cbc_encrypt_prefix [OF le, of rks iv "drop (length xs) p"] by simp
  have bl: "length block = 16"
    using pkcs7_pad_length [of xs] by (simp add: block_def p_def n_def)
  have one: "cbc_encrypt rks ch (Suc 0) block =
      (aes_encrypt_block rks (xor_bytes block ch), aes_encrypt_block rks (xor_bytes block ch))"
    using bl by (simp add: Let_def)
  have whole: "snd (cbc_encrypt rks iv (n + 1) p) = out @ aes_encrypt_block rks (xor_bytes block ch)"
    unfolding cbc_encrypt_add pre by (simp add: split_beta Let_def ch_def out_def block_def one [unfolded ch_def block_def] del: cbc_encrypt.simps)
  have upd: "encrypt_update c xs = (c\<lparr>ciph_chain := ch, ciph_buf := drop (16 * n) xs\<rparr>, out)"
    by (simp add: encrypt_update_def c_def Let_def split_beta n_def ch_def out_def)
  have fin: "encrypt_final (c\<lparr>ciph_chain := ch, ciph_buf := drop (16 * n) xs\<rparr>) =
      aes_encrypt_block rks (xor_bytes block ch)"
    using pkcs7_pad_last_block [of xs]
    by (simp add: encrypt_final_def c_def Let_def block_def p_def n_def)
  show ?thesis
    unfolding upd fst_conv snd_conv fin p_def [symmetric] pn whole ..
qed


lemma encrypt_update_decoder:
  "ciph_decoder (fst (encrypt_update c xs)) = ciph_decoder c"
  by (simp add: encrypt_update_def Let_def split_beta)

lemma encrypt_final_decoder:
  "encrypt_final (c\<lparr>ciph_decoder := d\<rparr>) = encrypt_final c"
  by (simp add: encrypt_final_def)

lemma cipher_update_final:
  fixes rks iv plaintext
  defines "c \<equiv> \<lparr>ciph_keys = rks, ciph_chain = iv, ciph_buf = [], ciph_decoder = []\<rparr>"
  defines "p \<equiv> pkcs7_pad (utf8_encode plaintext)"
  shows "snd (cipher_update c plaintext) @ cipher_final (fst (cipher_update c plaintext)) =
     b64_encode (snd (cbc_encrypt rks iv (length p div 16) p))"
proof -
  define u where "u = encrypt_update c (utf8_encode plaintext)"
  have dec: "ciph_decoder (fst u) = []"
    unfolding u_def encrypt_update_decoder by (simp add: c_def)
  have "snd (cipher_update c plaintext) @ cipher_final (fst (cipher_update c plaintext)) =
      snd (b64_write [] (snd u)) @ b64_end (fst (b64_write [] (snd u))) (encrypt_final (fst u))"
    by (simp add: cipher_update_def cipher_final_def Let_def split_beta u_def [symmetric] dec
        encrypt_final_decoder)
  also have "\<dots> = b64_encode (snd u @ encrypt_final (fst u))"
    by (rule b64_write_end)
  also have "snd u @ encrypt_final (fst u) = snd (cbc_encrypt rks iv (length p div 16) p)"
    unfolding u_def c_def p_def by (rule encrypt_update_final)
  finally show ?thesis .
qed

lemma encrypt_token:
  assumes "length (utf8_encode k) = 32" and "length iv = 16"
  shows "encrypt k iv s = Inr (token iv (cbc_pkcs7_encrypt (utf8_encode k) iv (utf8_encode s)))"
  using assms cipher_update_final [of "round_keys (utf8_encode k)" iv s]
  by (simp add: encrypt_def createCipheriv_def Let_def split_beta token_def cbc_pkcs7_encrypt_def)


lemma held_back_blocks:
  fixes l :: nat
  shows "l \<noteq> 0 \<Longrightarrow> l mod 16 = 0 \<Longrightarrow> (l - 1) div 16 = l div 16 - 1"
    and "l - 16 * ((l - 1) div 16) = 16 \<longleftrightarrow> l \<noteq> 0 \<and> l mod 16 = 0"
proof -
  define q where "q = l div 16"
  define r where "r = l mod 16"
  have l: "l = q * 16 + r" and r: "r < 16" by (simp_all add: q_def r_def)
  have a: "(l - 1) div 16 = q - 1" if "l \<noteq> 0" "r = 0"
  proof -
    from that l obtain q' where q': "q = Suc q'" by (cases q) auto
    with that l have "l - 1 = q' * 16 + 15" by simp
    then have "(l - 1) div 16 = q'" by simp
    with q' show ?thesis by simp
  qed
  have b: "(l - 1) div 16 = q" if "r \<noteq> 0"
  proof -
    from that l have "l - 1 = q * 16 + (r - 1)" by simp
    moreover from r have "r - 1 < 16" by simp
    ultimately show ?thesis by simp
  qed
  show "l \<noteq> 0 \<Longrightarrow> l mod 16 = 0 \<Longrightarrow> (l - 1) div 16 = l div 16 - 1"
    using a by (simp add: q_def r_def)
  have "l - 16 * ((l - 1) div 16) = 16 \<longleftrightarrow> l \<noteq> 0 \<and> r = 0"
  proof (cases "r = 0")
    case True
    show ?thesis
    proof (cases "l = 0")
      case True
      then show ?thesis by simp
    next
      case False
      with True l obtain q' where "q = Suc q'" by (cases q) auto
      with a [OF False True] l True False show ?thesis by simp
    qed
  next
    case False
    with b l r show ?thesis by simp
  qed
  then show "l - 16 * ((l - 1) div 16) = 16 \<longleftrightarrow> l \<noteq> 0 \<and> l mod 16 = 0"
    by (simp add: r_def)
qed

lemma utf8_write_end:
  "snd (utf8_write st xs) @ utf8_end (fst (utf8_write st xs)) ys = utf8_end st (xs @ ys)"
  by (simp add: utf8_end_def utf8_write_append Let_def split_beta)

lemma decipher_update_final:
  fixes key iv ct
  defines "d \<equiv> \<lparr>deci_keys = round_keys key, deci_chain = iv, deci_buf = [],
                   deci_decoder = utf8_init\<rparr>"
  shows "(case decipher_update d (Some s) of
            Inl e \<Rightarrow> Inl e
          | Inr (d', decrypted) \<Rightarrow>
              (case decipher_final d' of
                 Inl e \<Rightarrow> Inl e
               | Inr text \<Rightarrow> Inr (decrypted @ text))) =
         (let ct = b64_decode s in
          if length ct = 0 \<or> length ct mod 16 \<noteq> 0 then Inl WrongFinalBlockLength
          else if \<not> pkcs7_valid (final_block key iv ct) then Inl BadDecrypt
          else Inr (utf8_end utf8_init (cbc_body key iv ct @ pkcs7_unpad (final_block key iv ct))))"
proof -
  define ct where "ct = b64_decode s"
  define m where "m = (length ct - 1) div 16"
  define r where "r = cbc_decrypt (round_keys key) iv m ct"
  define d1 where "d1 = d\<lparr>deci_chain := fst r, deci_buf := drop (16 * m) ct\<rparr>"
  define w where "w = utf8_write utf8_init (snd r)"
  have upd: "decipher_update d (Some s) = Inr (d1\<lparr>deci_decoder := fst w\<rparr>, snd w)"
    unfolding w_def d1_def r_def m_def ct_def d_def
    by (simp add: decipher_update_def decrypt_update_def Let_def split_beta)
  have len: "length (deci_buf (d1\<lparr>deci_decoder := fst w\<rparr>)) = 16 \<longleftrightarrow>
      length ct \<noteq> 0 \<and> length ct mod 16 = 0"
    using held_back_blocks(2) [of "length ct"] by (simp add: d1_def m_def)
  show ?thesis
  proof (cases "length ct \<noteq> 0 \<and> length ct mod 16 = 0")
    case False
    with len show ?thesis
      unfolding upd by (auto simp add: decipher_final_def decrypt_final_def ct_def [symmetric])
  next
    case True
    then have m: "m = length ct div 16 - 1"
      using held_back_blocks(1) [of "length ct"] by (simp add: m_def)
    have fb: "final_block key iv ct =
        xor_bytes (aes_decrypt_block (round_keys key) (drop (16 * m) ct)) (fst r)"
      by (simp add: final_block_def Let_def r_def m)
    have body: "cbc_body key iv ct = snd r"
      by (simp add: cbc_body_def r_def m)
    define p where "p = final_block key iv ct"
    have fin: "decrypt_final (d1\<lparr>deci_decoder := fst w\<rparr>) =
        (if pkcs7_valid p then Inr (pkcs7_unpad p) else Inl BadDecrypt)"
      using len True
      by (auto simp add: decrypt_final_def Let_def d1_def d_def fb [symmetric] p_def [symmetric]
          pkcs7_valid_def pkcs7_unpad_def)
    show ?thesis
      using True utf8_write_end [of utf8_init "snd r" "pkcs7_unpad p", folded w_def]
      unfolding upd
      by (simp add: decipher_final_def fin ct_def [symmetric] p_def [symmetric] body)
  qed
qed

lemma decrypt_spec:
  "decrypt k t =
     (let iv = b64_decode (takeWhile (\<lambda>c. c \<noteq> colon) t); key = utf8_encode k in
      if length iv \<noteq> 16 then Inl InvalidIV
      else if length key \<noteq> 32 then Inl InvalidKeyLength
      else (case second_part t of
              None \<Rightarrow> Inl InvalidArgType
            | Some s \<Rightarrow>
                (let ct = b64_decode s in
                 if length ct = 0 \<or> length ct mod 16 \<noteq> 0 then Inl WrongFinalBlockLength
                 else if \<not> pkcs7_valid (final_block key iv ct) then Inl BadDecrypt
                 else Inr (utf8_end utf8_init
                        (cbc_body key iv ct @ pkcs7_unpad (final_block key iv ct))))))"
proof (cases "second_part t")
  case None
  then show ?thesis
    by (simp add: decrypt_parts createDecipheriv_def decipher_update_def Let_def)
next
  case (Some s)
  show ?thesis
    unfolding decrypt_parts Some createDecipheriv_def Let_def
    using decipher_update_final [of "utf8_encode k" "b64_decode (takeWhile (\<lambda>c. c \<noteq> colon) t)" s]
    by (simp add: Let_def)
qed


lemma token_parts:
  "takeWhile (\<lambda>c. c \<noteq> colon) (token iv ct) = b64_encode iv"
  "second_part (token iv ct) = Some (b64_encode ct)"
proof -
  have t: "takeWhile (\<lambda>c. c \<noteq> colon) (xs @ colon # ys) = xs" if "colon \<notin> set xs" for xs ys
    using that by (induction xs) auto
  show "takeWhile (\<lambda>c. c \<noteq> colon) (token iv ct) = b64_encode iv"
    using t [OF colon_notin_b64_encode] by (simp add: token_def)
  have "takeWhile (\<lambda>c. c \<noteq> colon) (b64_encode ct) = b64_encode ct"
    using colon_notin_b64_encode [of ct] by (simp add: takeWhile_eq_all_conv) metis
  then show "second_part (token iv ct) = Some (b64_encode ct)"
    using second_part_append [OF colon_notin_b64_encode, of iv "b64_encode ct"]
    by (simp add: token_def)
qed

lemma decrypt_token:
  assumes "length (utf8_encode k) = 32" and "length iv = 16"
  shows "decrypt k (token iv ct) =
     (if length ct = 0 \<or> length ct mod 16 \<noteq> 0 then Inl WrongFinalBlockLength
      else if \<not> pkcs7_valid (final_block (utf8_encode k) iv ct) then Inl BadDecrypt
      else Inr (utf8_end utf8_init
             (cbc_body (utf8_encode k) iv ct @ pkcs7_unpad (final_block (utf8_encode k) iv ct))))"
  using assms by (simp add: decrypt_spec token_parts b64_decode_encode Let_def)

lemma pkcs7_pad_valid:
  fixes r :: "byte list"
  assumes "length r < 16"
  defines "p \<equiv> r @ replicate (16 - length r) (of_nat (16 - length r))"
  shows "pkcs7_valid p" and "pkcs7_unpad p = r"
proof -
  define k where "k = 16 - length r"
  have k: "1 \<le> k" "k \<le> 16" "length r = 16 - k" using assms(1) by (simp_all add: k_def)
  have l: "last p = of_nat k"
    using k by (simp add: p_def k_def [symmetric])
  have u: "unat (of_nat k :: byte) = k"
    using k by (simp add: unat_of_nat)
  show "pkcs7_valid p"
    using k by (simp add: pkcs7_valid_def Let_def l u) (simp add: p_def k_def [symmetric])
  show "pkcs7_unpad p = r"
    using k by (simp add: pkcs7_unpad_def l u) (simp add: p_def k_def [symmetric])
qed

lemma decrypt_ciphertext:
  fixes key iv xs
  assumes "length key = 32" and "length iv = 16"
  defines "ct \<equiv> cbc_pkcs7_encrypt key iv xs"
  shows "length ct = 16 * Suc (length xs div 16)"
    and "cbc_body key iv ct = take (16 * (length xs div 16)) xs"
    and "final_block key iv ct = drop (16 * (length xs div 16)) (pkcs7_pad xs)"
proof -
  define n where "n = length xs div 16"
  define p where "p = pkcs7_pad xs"
  define rks where "rks = round_keys key"
  define block where "block = drop (16 * n) p"
  have ok: "keys_ok rks" unfolding rks_def using assms(1) by (rule keys_ok_round_keys)
  have lp: "length p = 16 * Suc n" by (simp add: p_def n_def pkcs7_pad_length)
  have ct: "ct = snd (cbc_encrypt rks iv (Suc n) p)"
    by (simp add: ct_def cbc_pkcs7_encrypt_def Let_def p_def [symmetric] lp rks_def)
  show len: "length ct = 16 * Suc (length xs div 16)"
    using cbc_encrypt_length [OF ok assms(2), of "Suc n" p] lp by (simp add: ct n_def)
  have le: "16 * n \<le> length p" using lp by simp
  define ch where "ch = fst (cbc_encrypt rks iv n p)"
  have chl: "length ch = 16"
    using cbc_encrypt_length [OF ok assms(2) le] by (simp add: ch_def)
  have bl: "length block = 16" using lp by (simp add: block_def)
  define c where "c = aes_encrypt_block rks (xor_bytes block ch)"
  have split: "ct = snd (cbc_encrypt rks iv n p) @ c"
    using cbc_encrypt_add [of rks iv n 1 p] bl
    by (simp add: ct split_beta Let_def ch_def c_def block_def)
  have dec: "cbc_decrypt rks iv n ct = (ch, take (16 * n) p)"
    unfolding split ch_def using ok assms(2) le by (rule cbc_decrypt_encrypt)
  have m: "length ct div 16 - Suc 0 = n" using len by (simp add: n_def)
  have "take (16 * n) p = take (16 * n) xs"
    by (simp add: p_def pkcs7_pad_def Let_def n_def)
  then show "cbc_body key iv ct = take (16 * (length xs div 16)) xs"
    by (simp add: cbc_body_def m rks_def [symmetric] dec n_def [symmetric])
  have cl: "length (snd (cbc_encrypt rks iv n p)) = 16 * n"
    using cbc_encrypt_length [OF ok assms(2) le] by simp
  have last: "drop (16 * n) ct = c" by (simp add: split cl)
  have xl: "length (xor_bytes block ch) = 16" using bl chl by (simp add: length_xor_bytes)
  have "aes_decrypt_block rks c = xor_bytes block ch"
    unfolding c_def using ok xl by (rule aes_decrypt_encrypt)
  then have "xor_bytes (aes_decrypt_block rks c) ch = block"
    using bl chl by (simp add: xor_bytes_cancel)
  then have "final_block key iv ct = block"
    by (simp add: final_block_def Let_def m rks_def [symmetric] dec last)
  then show "final_block key iv ct = drop (16 * (length xs div 16)) (pkcs7_pad xs)"
    by (simp add: block_def p_def n_def)
qed

lemma decrypt_encrypt_bytes:
  assumes "length (utf8_encode k) = 32" and "length iv = 16"
  shows "decrypt k (token iv (cbc_pkcs7_encrypt (utf8_encode k) iv xs)) =
     Inr (utf8_end utf8_init xs)"
proof -
  define n where "n = length xs div 16"
  define r where "r = drop (16 * n) xs"
  define ct where "ct = cbc_pkcs7_encrypt (utf8_encode k) iv xs"
  note c = decrypt_ciphertext [OF assms, of xs, folded ct_def n_def]
  have rl: "length r < 16"
  proof -
    have "length xs mod 16 < 16" by simp
    then show ?thesis by (simp add: r_def n_def minus_mult_div_eq_mod)
  qed
  have fb: "final_block (utf8_encode k) iv ct =
      r @ replicate (16 - length r) (of_nat (16 - length r))"
    unfolding c(3) n_def r_def by (rule pkcs7_pad_last_block)
  have v: "pkcs7_valid (final_block (utf8_encode k) iv ct)"
    and u: "pkcs7_unpad (final_block (utf8_encode k) iv ct) = r"
    unfolding fb using rl by (rule pkcs7_pad_valid)+
  have "length ct \<noteq> 0" "length ct mod 16 = 0" using c(1) by simp_all
  then show ?thesis
    unfolding ct_def [symmetric] decrypt_token [OF assms]
    by (simp add: v u c(2) r_def)
qed

lemma decrypt_encrypt:
  assumes "length (utf8_encode k) = 32" and "length iv = 16" and "well_formed s"
  shows "\<exists>t. encrypt k iv s = Inr t \<and> decrypt k t = Inr s"
  using assms by (simp add: encrypt_token decrypt_encrypt_bytes utf8_end_encode)

lemma split_colon_single: "colon \<notin> set t \<Longrightarrow> split_colon t = [t]"
  by (induction t) auto

lemma split_colon_token: "split_colon (token iv ct) = [b64_encode iv, b64_encode ct]"
  using split_colon_append [OF colon_notin_b64_encode, of iv "b64_encode ct"]
    split_colon_single [OF colon_notin_b64_encode, of ct]
  by (simp add: token_def)

lemma token_ascii: "c \<in> set (token iv ct) \<Longrightarrow> unat c < 128"
  using b64_encode_chars [of c iv] b64_encode_chars [of c ct]
  by (auto simp: token_def colon_def)

lemma token_iv_inject: "token iv ct = token iv' ct' \<Longrightarrow> iv = iv'"
proof -
  assume "token iv ct = token iv' ct'"
  then have "takeWhile (\<lambda>c. c \<noteq> colon) (token iv ct) = takeWhile (\<lambda>c. c \<noteq> colon) (token iv' ct')"
    by simp
  then have "b64_decode (b64_encode iv) = b64_decode (b64_encode iv')"
    by (simp only: token_parts)
  then show ?thesis by (simp only: b64_decode_encode)
qed




lemma decrypt_no_colon:
  assumes "colon \<notin> set t"
  shows "decrypt k t = Inl InvalidIV \<or> decrypt k t = Inl InvalidKeyLength \<or>
     decrypt k t = Inl InvalidArgType"
  using second_part_none [OF assms] by (simp add: decrypt_spec Let_def)


section \<open>Running the module on concrete inputs\<close>

lemma upt_0_15: "[0..<15] = [0, 1, 2, 3, 4, 5, 6, 7, 8, 9, 10, 11, 12, 13, 14]"
  by (simp add: upt_rec)

lemma cbc_encrypt_numeral:
  "cbc_encrypt rks chain (numeral k) xs =
     (case cbc_encrypt rks (aes_encrypt_block rks (xor_bytes (take 16 xs) chain))
             (pred_numeral k) (drop 16 xs) of
        (chain', out) \<Rightarrow> (chain', aes_encrypt_block rks (xor_bytes (take 16 xs) chain) @ out))"
  by (simp add: numeral_eq_Suc Let_def)

lemma cbc_decrypt_numeral:
  "cbc_decrypt rks chain (numeral k) xs =
     (case cbc_decrypt rks (take 16 xs) (pred_numeral k) (drop 16 xs) of
        (chain', out) \<Rightarrow> (chain', xor_bytes (aes_decrypt_block rks (take 16 xs)) chain @ out))"
  by (simp add: numeral_eq_Suc Let_def)

lemma replicate_numeral: "replicate (numeral k) x = x # replicate (pred_numeral k) x"
  by (simp add: numeral_eq_Suc)

lemmas aes_eval = upt_0_15 sub_byte_numeral inv_sub_byte_numeral xtime_numeral
  xor_bytes_def sub_bytes_def inv_sub_bytes_def shift_rows_def inv_shift_rows_def
  mul2_def mul3_def mul9_def mul11_def mul13_def mul14_def rot_word_def rcon_def key_word_def
  expand_step_def key_expansion_def round_keys_def aes_encrypt_block_def aes_decrypt_block_def

lemmas codec_eval = js_def colon_def equals_sign_def replacement_char_def
  is_high_surrogate_def is_low_surrogate_def utf8_bytes_def pair_code_point_def
  utf8_init_def code_units_def utf8_lead_def utf8_step_def utf8_end_def
  b64_char_def low_byte_def b64_value_def b64_decode_def b64_write_def b64_end_def

lemmas cipher_eval = createCipheriv_def createDecipheriv_def cbc_encrypt_numeral
  cbc_decrypt_numeral replicate_numeral encrypt_update_def encrypt_final_def cipher_update_def
  cipher_final_def decrypt_update_def decrypt_final_def decipher_update_def decipher_final_def
  encrypt_def decrypt_def Let_def

text \<open>The block cipher gives the cipher block that the standard lists for its example.\<close>

lemma aes256_known_answer:
  "aes_encrypt_block (round_keys fips_key) fips_plain = fips_cipher"
  "aes_decrypt_block (round_keys fips_key) fips_cipher = fips_plain"
  by (simp_all add: fips_key_def fips_plain_def fips_cipher_def aes_eval Let_def)

lemma example_key_bytes:
  "utf8_encode example_key =
     [48, 49, 50, 51, 52, 53, 54, 55, 56, 57, 97, 98, 99, 100, 101, 102,
      48, 49, 50, 51, 52, 53, 54, 55, 56, 57, 97, 98, 99, 100, 101, 102]"
  by (simp add: example_key_def codec_eval)

lemma encrypt_hello: "encrypt example_key example_iv (js ''hello'') = Inr hello_token"
  by (simp add: example_key_bytes example_iv_def hello_token_def aes_eval codec_eval cipher_eval)

lemma decrypt_hello: "decrypt example_key hello_token = Inr (js ''hello'')"
  by (simp add: example_key_bytes hello_token_def aes_eval codec_eval cipher_eval)

lemma other_key_bytes:
  "utf8_encode other_key =
     [102, 101, 100, 99, 98, 97, 57, 56, 55, 54, 53, 52, 51, 50, 49, 48,
      102, 101, 100, 99, 98, 97, 57, 56, 55, 54, 53, 52, 51, 50, 49, 48]"
  by (simp add: other_key_def codec_eval)

lemma accented_key_bytes:
  "utf8_encode accented_key =
     [48, 49, 50, 51, 52, 53, 54, 55, 56, 57, 97, 98, 99, 100, 101, 102,
      48, 49, 50, 51, 52, 53, 54, 55, 56, 57, 97, 98, 99, 100, 101, 195, 169]"
  by (simp add: accented_key_def codec_eval)

lemma short_accented_key_bytes:
  "utf8_encode short_accented_key =
     [48, 49, 50, 51, 52, 53, 54, 55, 56, 57, 97, 98, 99, 100, 101, 102,
      48, 49, 50, 51, 52, 53, 54, 55, 56, 57, 97, 98, 99, 100, 195, 169]"
  by (simp add: short_accented_key_def codec_eval)

lemma decrypt_hello_extra:
  "decrypt example_key (hello_token @ js '':extra'') = Inr (js ''hello'')"
  by (simp add: example_key_bytes hello_token_def aes_eval codec_eval cipher_eval)

lemma encrypt_secret: "encrypt example_key example_iv (js ''secret-206'') = Inr secret_token"
  by (simp add: example_key_bytes example_iv_def secret_token_def aes_eval codec_eval cipher_eval)

lemma decrypt_secret_other_key: "decrypt other_key secret_token = Inr secret_garbled"
  by (simp add: other_key_bytes secret_token_def secret_garbled_def aes_eval codec_eval
      cipher_eval)





lemma encrypt_straddling:
  "encrypt example_key example_iv straddling_text = Inr straddling_token"
  by (simp add: example_key_bytes example_iv_def straddling_text_def straddling_token_def
      aes_eval codec_eval cipher_eval)

lemma decrypt_straddling: "decrypt example_key straddling_token = Inr straddling_text"
  by (simp add: example_key_bytes straddling_text_def straddling_token_def aes_eval codec_eval
      cipher_eval)

lemma encrypt_empty: "encrypt example_key example_iv [] = Inr empty_token"
  by (simp add: example_key_bytes example_iv_def empty_token_def aes_eval codec_eval cipher_eval)

lemma decrypt_empty: "decrypt example_key empty_token = Inr []"
  by (simp add: example_key_bytes empty_token_def aes_eval codec_eval cipher_eval)

text \<open>Code units above U+00FF in a payload are read by their low byte.\<close>

lemma b64_decode_wide:
  "b64_decode (0x141 # js ''AEC'') = [0, 1, 2]"
  "b64_decode (js ''AAE'' @ 0x13D # js ''CAw'') = [0, 1]"
  by (simp_all add: codec_eval)

lemma decrypt_wide_iv: "decrypt example_key wide_iv_token = Inr (js ''hello'')"
  by (simp add: example_key_bytes wide_iv_token_def aes_eval codec_eval cipher_eval)

lemma decrypt_wide_text: "decrypt example_key wide_text_token = Inr (js ''hello'')"
  by (simp add: example_key_bytes wide_text_token_def aes_eval codec_eval cipher_eval)

lemma wide_prefix_iv: "length (b64_decode (hd (split_colon wide_prefix_token))) = 17"
  by (simp add: wide_prefix_token_def hello_token_def codec_eval)

lemma split_hello_extra:
  "split_colon (hello_token @ js '':extra'') =
     [js ''AAECAwQFBgcICQoLDA0ODw=='', js ''MYNSl5uYV6V9tOH5RSXtDA=='', js ''extra'']"
  by (simp add: hello_token_def js_def colon_def)

section \<open>The claims\<close>

text \<open>
  C1.  Round trip.  For every string \<open>s\<close> that has a UTF-8 encoding (the empty string and
  strings with characters of several bytes among them), a key whose UTF-8 encoding is 32
  bytes long and the 16 bytes \<open>iv\<close> drawn by \<^verbatim>\<open>encrypt\<close>: \<^verbatim>\<open>encrypt\<close> returns a token,
  and \<^verbatim>\<open>decrypt\<close> of that token under the same key returns \<open>s\<close>.
\<close>

theorem decrypt_encrypt_round_trip:
  assumes "length (utf8_encode k) = 32" and "length iv = 16" and "well_formed s"
  shows "\<exists>t. encrypt k iv s = Inr t \<and> decrypt k t = Inr s"
  using assms by (rule decrypt_encrypt)

theorem decrypt_encrypt_round_trip_witness:
  "length (utf8_encode example_key) = 32 \<and> length example_iv = 16 \<and>
   well_formed straddling_text \<and> well_formed [] \<and>
   encrypt example_key example_iv straddling_text = Inr straddling_token \<and>
   decrypt example_key straddling_token = Inr straddling_text \<and>
   encrypt example_key example_iv [] = Inr empty_token \<and>
   decrypt example_key empty_token = Inr []"
proof -
  have k: "length (utf8_encode example_key) = 32" by (simp add: example_key_bytes)
  have i: "length example_iv = 16" by (simp add: example_iv_def)
  have u: "well_formed straddling_text"
    by (simp add: straddling_text_def js_def is_high_surrogate_def is_low_surrogate_def)
  have e: "well_formed []" by simp
  show ?thesis
    using decrypt_encrypt_round_trip [OF k i u] decrypt_encrypt_round_trip [OF k i e]
      encrypt_straddling encrypt_empty k i u
    by auto
qed

text \<open>
  C2 (as amended).  \<^verbatim>\<open>decrypt\<close> has no format check of its own.  A payload without a colon
  always fails: with the library's invalid-IV, key-length or argument-type error.  A
  payload whose first piece does not decode to 16 bytes fails with the invalid-IV error.
  Under a 32-byte key, a payload whose first piece decodes to 16 bytes and whose second
  piece decodes to no byte or not to whole blocks fails with the wrong-final-block-length
  error.  The pieces after the second are ignored: a payload of two pieces or more
  decrypts as its first two pieces, joined by a colon, do.
\<close>

theorem malformed_payload_errors:
  "(colon \<notin> set t \<longrightarrow>
      decrypt k t = Inl InvalidIV \<or> decrypt k t = Inl InvalidKeyLength \<or>
      decrypt k t = Inl InvalidArgType) \<and>
   (length (b64_decode (hd (split_colon t))) \<noteq> 16 \<longrightarrow> decrypt k t = Inl InvalidIV) \<and>
   (length (utf8_encode k) = 32 \<and> split_colon t = a # b # rest \<and>
    length (b64_decode a) = 16 \<and> (length (b64_decode b) = 0 \<or> length (b64_decode b) mod 16 \<noteq> 0)
      \<longrightarrow> decrypt k t = Inl WrongFinalBlockLength) \<and>
   (split_colon t = a # b # rest \<longrightarrow> decrypt k t = decrypt k (a @ colon # b))"
proof (intro conjI impI)
  assume "colon \<notin> set t"
  then show "decrypt k t = Inl InvalidIV \<or> decrypt k t = Inl InvalidKeyLength \<or>
      decrypt k t = Inl InvalidArgType"
    by (rule decrypt_no_colon)
next
  assume "length (b64_decode (hd (split_colon t))) \<noteq> 16"
  then show "decrypt k t = Inl InvalidIV"
    by (simp add: decrypt_spec hd_split_colon Let_def)
next
  assume h: "length (utf8_encode k) = 32 \<and> split_colon t = a # b # rest \<and>
    length (b64_decode a) = 16 \<and> (length (b64_decode b) = 0 \<or> length (b64_decode b) mod 16 \<noteq> 0)"
  then have "hd (split_colon t) = a" and "second_part t = Some b"
    by (simp_all add: second_part_def)
  with h show "decrypt k t = Inl WrongFinalBlockLength"
    by (auto simp add: decrypt_spec hd_split_colon [symmetric] Let_def)
next
  assume "split_colon t = a # b # rest"
  then show "decrypt k t = decrypt k (a @ colon # b)"
    by (rule decrypt_first_two)
qed

theorem malformed_payload_errors_witness:
  "colon \<notin> set (js ''AAECAwQFBgcICQoLDA0ODw=='') \<and>
   decrypt example_key (js ''AAECAwQFBgcICQoLDA0ODw=='') = Inl InvalidArgType \<and>
   length (b64_decode (hd (split_colon (js ''AAECAwQFBgcICQoLDA0O:MYNSl5uYV6V9tOH5RSXtDA=='')))) = 15 \<and>
   decrypt example_key (js ''AAECAwQFBgcICQoLDA0O:MYNSl5uYV6V9tOH5RSXtDA=='') = Inl InvalidIV \<and>
   length (utf8_encode example_key) = 32 \<and>
   split_colon (js ''AAECAwQFBgcICQoLDA0ODw==:MYNS'') =
     [js ''AAECAwQFBgcICQoLDA0ODw=='', js ''MYNS''] \<and>
   length (b64_decode (js ''AAECAwQFBgcICQoLDA0ODw=='')) = 16 \<and>
   length (b64_decode (js ''MYNS'')) = 3 \<and>
   decrypt example_key (js ''AAECAwQFBgcICQoLDA0ODw==:MYNS'') = Inl WrongFinalBlockLength \<and>
   split_colon (hello_token @ js '':extra'') =
     [js ''AAECAwQFBgcICQoLDA0ODw=='', js ''MYNSl5uYV6V9tOH5RSXtDA=='', js ''extra''] \<and>
   decrypt example_key (hello_token @ js '':extra'') =
     decrypt example_key
       (js ''AAECAwQFBgcICQoLDA0ODw=='' @ colon # js ''MYNSl5uYV6V9tOH5RSXtDA=='') \<and>
   js ''AAECAwQFBgcICQoLDA0ODw=='' @ colon # js ''MYNSl5uYV6V9tOH5RSXtDA=='' = hello_token"
proof -
  have 1: "colon \<notin> set (js ''AAECAwQFBgcICQoLDA0ODw=='')"
    by (simp add: js_def colon_def)
  have 2: "length (b64_decode (js ''AAECAwQFBgcICQoLDA0ODw=='')) = 16"
    by (simp add: codec_eval)
  have 3: "length (b64_decode (hd (split_colon (js ''AAECAwQFBgcICQoLDA0O:MYNSl5uYV6V9tOH5RSXtDA=='')))) = 15"
    by (simp add: codec_eval)
  have 4: "split_colon (js ''AAECAwQFBgcICQoLDA0ODw==:MYNS'') =
      [js ''AAECAwQFBgcICQoLDA0ODw=='', js ''MYNS'']"
    by (simp add: js_def colon_def)
  have 5: "length (b64_decode (js ''MYNS'')) = 3"
    by (simp add: codec_eval)
  have 6: "length (utf8_encode example_key) = 32" by (simp add: example_key_bytes)
  have 7: "decrypt example_key (js ''AAECAwQFBgcICQoLDA0ODw=='') = Inl InvalidArgType"
    by (simp add: example_key_bytes codec_eval cipher_eval)
  have 8: "js ''AAECAwQFBgcICQoLDA0ODw=='' @ colon # js ''MYNSl5uYV6V9tOH5RSXtDA=='' = hello_token"
    by (simp add: hello_token_def js_def colon_def)
  have 9: "decrypt example_key (hello_token @ js '':extra'') =
      decrypt example_key
        (js ''AAECAwQFBgcICQoLDA0ODw=='' @ colon # js ''MYNSl5uYV6V9tOH5RSXtDA=='')"
    using malformed_payload_errors [of "hello_token @ js '':extra''" example_key
        "js ''AAECAwQFBgcICQoLDA0ODw==''" "js ''MYNSl5uYV6V9tOH5RSXtDA==''" "[js ''extra'']"]
      split_hello_extra
    by blast
  show ?thesis
    using malformed_payload_errors [of "js ''AAECAwQFBgcICQoLDA0ODw==''" example_key]
      malformed_payload_errors [of "js ''AAECAwQFBgcICQoLDA0O:MYNSl5uYV6V9tOH5RSXtDA==''" example_key]
      malformed_payload_errors [of "js ''AAECAwQFBgcICQoLDA0ODw==:MYNS''" example_key
        "js ''AAECAwQFBgcICQoLDA0ODw==''" "js ''MYNS''" "[]"]
      1 2 3 4 5 6 7 8 9 split_hello_extra
    by simp
qed

text \<open>
  C2 as stated fails: a payload of three pieces does not have the two-part structure, and
  \<^verbatim>\<open>decrypt\<close> returns a plaintext for it instead of a format error, since the pieces after
  the second are not looked at.
\<close>

theorem extra_piece_not_rejected:
  "length (split_colon (hello_token @ js '':extra'')) = 3 \<and>
   decrypt example_key (hello_token @ js '':extra'') = Inr (js ''hello'')"
proof -
  have "length (split_colon (hello_token @ js '':extra'')) = 3"
    by (simp add: hello_token_def js_def colon_def)
  then show ?thesis using decrypt_hello_extra by simp
qed

text \<open>
  C3 (a defect of the code).  The comment above the check asks for a key of 32 bytes, the
  check compares \<^verbatim>\<open>ENCRYPTION_KEY.length\<close>, the number of UTF-16 code units.  A key of 32
  characters one of which is U+00E9 is 33 bytes long: loading the module succeeds, and
  \<^verbatim>\<open>encrypt\<close> then fails on the key's length.  A key of 31 characters that is exactly 32
  bytes long is refused at load time, although \<^verbatim>\<open>encrypt\<close> works with it.
\<close>

theorem startup_check_counts_characters:
  "length (utf8_encode accented_key) = 33 \<and>
   load_module (Some accented_key) = Inr accented_key \<and>
   encrypt accented_key example_iv (js ''hello'') = Inl InvalidKeyLength \<and>
   length (utf8_encode short_accented_key) = 32 \<and>
   load_module (Some short_accented_key) = Inl ConfigError \<and>
   encrypt short_accented_key example_iv (js ''hello'') =
     Inr (js ''AAECAwQFBgcICQoLDA0ODw==:pD4OS33KJ5K3NETKNtvMPg=='')"
proof -
  have "length accented_key = 32" "accented_key \<noteq> []"
    "length short_accented_key = 31"
    by (simp_all add: accented_key_def short_accented_key_def js_def)
  then have "load_module (Some accented_key) = Inr accented_key"
    "load_module (Some short_accented_key) = Inl ConfigError"
    by (simp_all add: load_module_def)
  moreover have "encrypt accented_key example_iv (js ''hello'') = Inl InvalidKeyLength"
    by (simp add: encrypt_def createCipheriv_def accented_key_bytes example_iv_def)
  moreover have "encrypt short_accented_key example_iv (js ''hello'') =
      Inr (js ''AAECAwQFBgcICQoLDA0ODw==:pD4OS33KJ5K3NETKNtvMPg=='')"
    by (simp add: short_accented_key_bytes example_iv_def aes_eval codec_eval cipher_eval)
  ultimately show ?thesis
    by (simp add: accented_key_bytes short_accented_key_bytes)
qed

text \<open>
  C4.  Under a key of 32 bytes and with the 16 bytes \<open>iv\<close> drawn for the call, the token
  \<^verbatim>\<open>encrypt\<close> returns is \<^verbatim>\<open>base64(iv) + ":" + base64(ciphertext)\<close>, where the ciphertext
  is the CBC encryption of the padded UTF-8 bytes of the plaintext and nothing else: it
  is as long as the padded plaintext.  The token splits at its one colon into exactly
  the two parts, each decodes on its own to the IV and to the ciphertext, and every
  character of the token is ASCII.
\<close>

theorem encrypt_wire_format:
  assumes "length (utf8_encode k) = 32" and "length iv = 16"
  shows "\<exists>ct. encrypt k iv s = Inr (b64_encode iv @ [colon] @ b64_encode ct) \<and>
     ct = cbc_pkcs7_encrypt (utf8_encode k) iv (utf8_encode s) \<and>
     length ct = 16 * Suc (length (utf8_encode s) div 16) \<and>
     split_colon (b64_encode iv @ [colon] @ b64_encode ct) = [b64_encode iv, b64_encode ct] \<and>
     b64_decode (b64_encode iv) = iv \<and> b64_decode (b64_encode ct) = ct \<and>
     (\<forall>c \<in> set (b64_encode iv @ [colon] @ b64_encode ct). unat c < 128)"
proof -
  define ct where "ct = cbc_pkcs7_encrypt (utf8_encode k) iv (utf8_encode s)"
  have "encrypt k iv s = Inr (b64_encode iv @ [colon] @ b64_encode ct)"
    using encrypt_token [OF assms, of s] by (simp add: token_def ct_def)
  moreover have "length ct = 16 * Suc (length (utf8_encode s) div 16)"
    unfolding ct_def using assms by (rule decrypt_ciphertext(1))
  moreover have "split_colon (b64_encode iv @ [colon] @ b64_encode ct) =
      [b64_encode iv, b64_encode ct]"
    using split_colon_token [of iv ct] by (simp add: token_def)
  moreover have "\<forall>c \<in> set (b64_encode iv @ [colon] @ b64_encode ct). unat c < 128"
    using token_ascii [of _ iv ct] by (simp add: token_def)
  ultimately show ?thesis
    using ct_def b64_decode_encode by blast
qed

theorem encrypt_wire_format_witness:
  "length (utf8_encode example_key) = 32 \<and> length example_iv = 16 \<and>
   encrypt example_key example_iv (js ''hello'') = Inr hello_token \<and>
   hello_token =
     b64_encode example_iv @ [colon] @
     b64_encode (cbc_pkcs7_encrypt (utf8_encode example_key) example_iv (utf8_encode (js ''hello''))) \<and>
   b64_encode example_iv = js ''AAECAwQFBgcICQoLDA0ODw=='' \<and>
   length (cbc_pkcs7_encrypt (utf8_encode example_key) example_iv (utf8_encode (js ''hello''))) =
     16"
proof -
  have k: "length (utf8_encode example_key) = 32" by (simp add: example_key_bytes)
  have i: "length example_iv = 16" by (simp add: example_iv_def)
  have h: "length (utf8_encode (js ''hello'')) = 5" by (simp add: codec_eval)
  have b: "b64_encode example_iv = js ''AAECAwQFBgcICQoLDA0ODw==''"
    by (simp add: example_iv_def codec_eval Let_def)
  show ?thesis
    using encrypt_wire_format [OF k i, of "js ''hello''"] encrypt_hello k i h b by auto
qed

text \<open>
  C5.  Two calls of \<^verbatim>\<open>encrypt\<close> on the same string under the same 32-byte key that draw
  different IVs return different tokens, \<^verbatim>\<open>decrypt\<close> returns the same for both, and for a
  well-formed string (a string that has a UTF-8 encoding) it returns the string.
\<close>

theorem distinct_ivs_distinct_tokens:
  assumes "length (utf8_encode k) = 32" and "length iv = 16" and "length iv' = 16"
    and "iv \<noteq> iv'"
  shows "\<exists>t t'. encrypt k iv s = Inr t \<and> encrypt k iv' s = Inr t' \<and> t \<noteq> t' \<and>
     decrypt k t = decrypt k t' \<and>
     (well_formed s \<longrightarrow> decrypt k t = Inr s \<and> decrypt k t' = Inr s)"
proof -
  define t where "t = token iv (cbc_pkcs7_encrypt (utf8_encode k) iv (utf8_encode s))"
  define t' where "t' = token iv' (cbc_pkcs7_encrypt (utf8_encode k) iv' (utf8_encode s))"
  have e: "encrypt k iv s = Inr t" "encrypt k iv' s = Inr t'"
    using assms by (simp_all add: encrypt_token t_def t'_def)
  have d: "decrypt k t = Inr (utf8_end utf8_init (utf8_encode s))"
    "decrypt k t' = Inr (utf8_end utf8_init (utf8_encode s))"
    using assms by (simp_all add: t_def t'_def decrypt_encrypt_bytes)
  have "t \<noteq> t'"
    using assms(4) token_iv_inject unfolding t_def t'_def by blast
  with e d show ?thesis by (auto simp add: utf8_end_encode)
qed

theorem distinct_ivs_distinct_tokens_witness:
  "length (utf8_encode example_key) = 32 \<and> length example_iv = 16 \<and> length other_iv = 16 \<and>
   example_iv \<noteq> other_iv \<and> well_formed (js ''hello'') \<and>
   (\<exists>t t'. encrypt example_key example_iv (js ''hello'') = Inr t \<and>
      encrypt example_key other_iv (js ''hello'') = Inr t' \<and> t \<noteq> t' \<and>
      decrypt example_key t = Inr (js ''hello'') \<and> decrypt example_key t' = Inr (js ''hello''))"
proof -
  have k: "length (utf8_encode example_key) = 32" by (simp add: example_key_bytes)
  have i: "length example_iv = 16" "length other_iv = 16" "example_iv \<noteq> other_iv"
    by (simp_all add: example_iv_def other_iv_def)
  have w: "well_formed (js ''hello'')"
    by (simp add: js_def is_high_surrogate_def is_low_surrogate_def)
  show ?thesis
    using distinct_ivs_distinct_tokens [OF k i, of "js ''hello''"] k i w by auto
qed

text \<open>
  C6 (as amended).  A token made under the key \<open>k\<close> and decrypted under a key \<open>k'\<close> (both
  of 32 bytes) fails with the bad-decrypt error exactly when the last block, as
  deciphered under \<open>k'\<close>, does not end in valid padding; when it does, \<^verbatim>\<open>decrypt\<close>
  returns the text that the blocks deciphered under \<open>k'\<close> decode to.
\<close>

theorem other_key_padding_check:
  assumes "length (utf8_encode k) = 32" and "length (utf8_encode k') = 32" and "length iv = 16"
    and "ct = cbc_pkcs7_encrypt (utf8_encode k) iv (utf8_encode s)"
  shows "encrypt k iv s = Inr (token iv ct) \<and>
     decrypt k' (token iv ct) =
       (if pkcs7_valid (final_block (utf8_encode k') iv ct)
        then Inr (utf8_end utf8_init
               (cbc_body (utf8_encode k') iv ct @
                pkcs7_unpad (final_block (utf8_encode k') iv ct)))
        else Inl BadDecrypt)"
proof -
  have "length ct = 16 * Suc (length (utf8_encode s) div 16)"
    unfolding assms(4) using assms(1,3) by (rule decrypt_ciphertext(1))
  then have "length ct \<noteq> 0" "length ct mod 16 = 0" by simp_all
  then show ?thesis
    using assms by (simp add: encrypt_token decrypt_token)
qed

theorem other_key_padding_check_witness:
  "length (utf8_encode example_key) = 32 \<and> length (utf8_encode other_key) = 32 \<and>
   length example_iv = 16 \<and>
   encrypt example_key example_iv (js ''hello'') = Inr hello_token \<and>
   hello_token =
     token example_iv
       (cbc_pkcs7_encrypt (utf8_encode example_key) example_iv (utf8_encode (js ''hello''))) \<and>
   decrypt other_key hello_token = Inl BadDecrypt \<and>
   \<not> pkcs7_valid (final_block (utf8_encode other_key) example_iv
         (cbc_pkcs7_encrypt (utf8_encode example_key) example_iv (utf8_encode (js ''hello''))))"
proof -
  have k: "length (utf8_encode example_key) = 32" "length (utf8_encode other_key) = 32"
    by (simp_all add: example_key_bytes other_key_bytes)
  have i: "length example_iv = 16" by (simp add: example_iv_def)
  have d: "decrypt other_key hello_token = Inl BadDecrypt"
    by (simp add: other_key_bytes hello_token_def aes_eval codec_eval cipher_eval)
  show ?thesis
    using other_key_padding_check [OF k i refl, of "js ''hello''"] encrypt_hello d k i
    by (auto split: if_splits)
qed

text \<open>
  C6 as stated fails: the token of \<^verbatim>\<open>secret-206\<close> made under one key decrypts under
  another key without an error, to a garbled text.
\<close>

theorem other_key_accepted:
  "utf8_encode example_key \<noteq> utf8_encode other_key \<and>
   length (utf8_encode example_key) = 32 \<and> length (utf8_encode other_key) = 32 \<and>
   encrypt example_key example_iv (js ''secret-206'') = Inr secret_token \<and>
   decrypt other_key secret_token = Inr secret_garbled"
  using encrypt_secret decrypt_secret_other_key
  by (simp add: example_key_bytes other_key_bytes)




text \<open>
  C9.  \<^verbatim>\<open>decrypt\<close> reads only the first two pieces of its argument: when the payload \<open>t\<close>
  already has a colon, appending a colon and any string \<open>x\<close> does not change what
  \<^verbatim>\<open>decrypt\<close> does, and whenever \<^verbatim>\<open>decrypt\<close> succeeds on \<open>t\<close> it succeeds on the longer
  payload with the same plaintext.
\<close>

theorem decrypt_ignores_extra_parts:
  "(colon \<in> set t \<longrightarrow> decrypt k (t @ colon # x) = decrypt k t) \<and>
   (decrypt k t = Inr s \<longrightarrow> decrypt k (t @ colon # x) = Inr s)"
proof -
  have a: "decrypt k (t @ colon # x) = decrypt k t" if "colon \<in> set t"
    unfolding decrypt_parts by (simp only: parts_extra [OF that])
  have b: "colon \<in> set t" if "decrypt k t = Inr s"
  proof (rule ccontr)
    assume "colon \<notin> set t"
    then have "second_part t = None" by (rule second_part_none)
    then have "\<exists>e. decrypt k t = Inl e"
      by (simp add: decrypt_parts decipher_update_def split: sum.splits)
    with that show False by auto
  qed
  from a b show ?thesis by auto
qed

theorem decrypt_ignores_extra_parts_witness:
  "colon \<in> set hello_token \<and>
   decrypt example_key hello_token = Inr (js ''hello'') \<and>
   decrypt example_key (hello_token @ colon # js ''zzz'') = decrypt example_key hello_token \<and>
   decrypt example_key (hello_token @ colon # js ''zzz'') = Inr (js ''hello'')"
proof -
  have c: "colon \<in> set hello_token"
    by (simp add: hello_token_def js_def colon_def)
  show ?thesis
    using decrypt_ignores_extra_parts [of hello_token example_key "js ''zzz''" "js ''hello''"]
      c decrypt_hello
    by simp
qed

text \<open>
  C10 (as amended).  The check at load time counts code units: a key of 32 code units
  passes it whatever the length of its UTF-8 encoding.  When that encoding is longer than
  32 bytes, every call of \<^verbatim>\<open>encrypt\<close> fails with the key-length error, and every call of
  \<^verbatim>\<open>decrypt\<close> fails: with the key-length error when the first piece of the payload
  decodes to 16 bytes, and with the invalid-IV error otherwise, since the length of the
  IV is checked before the length of the key.
\<close>

theorem long_key_fails_each_call:
  assumes "length k = 32" and "32 < length (utf8_encode k)" and "length iv = 16"
  shows "load_module (Some k) = Inr k \<and>
     encrypt k iv s = Inl InvalidKeyLength \<and>
     decrypt k t =
       (if length (b64_decode (hd (split_colon t))) = 16 then Inl InvalidKeyLength
        else Inl InvalidIV)"
proof -
  from assms(1) have "k \<noteq> []" by auto
  with assms(1) have "load_module (Some k) = Inr k" by (simp add: load_module_def)
  moreover have "encrypt k iv s = Inl InvalidKeyLength"
    using assms(2,3) by (simp add: encrypt_def createCipheriv_def)
  moreover have "decrypt k t =
      (if length (b64_decode (hd (split_colon t))) = 16 then Inl InvalidKeyLength
       else Inl InvalidIV)"
    using assms(2) by (simp add: decrypt_spec hd_split_colon Let_def)
  ultimately show ?thesis by simp
qed

theorem long_key_fails_each_call_witness:
  "length accented_key = 32 \<and> 32 < length (utf8_encode accented_key) \<and>
   length example_iv = 16 \<and>
   load_module (Some accented_key) = Inr accented_key \<and>
   encrypt accented_key example_iv (js ''hello'') = Inl InvalidKeyLength \<and>
   length (b64_decode (hd (split_colon hello_token))) = 16 \<and>
   decrypt accented_key hello_token = Inl InvalidKeyLength \<and>
   length (b64_decode (hd (split_colon wide_prefix_token))) = 17 \<and>
   decrypt accented_key wide_prefix_token = Inl InvalidIV"
proof -
  have k: "length accented_key = 32" "32 < length (utf8_encode accented_key)"
    by (simp_all add: accented_key_bytes) (simp add: accented_key_def js_def)
  have i: "length example_iv = 16" by (simp add: example_iv_def)
  have h: "length (b64_decode (hd (split_colon hello_token))) = 16"
    by (simp add: hello_token_def codec_eval)
  show ?thesis
    using long_key_fails_each_call [OF k i, of "js ''hello''" hello_token]
      long_key_fails_each_call [OF k i, of "js ''hello''" wide_prefix_token]
      k i h wide_prefix_iv
    by simp
qed

text \<open>
  C10 as stated fails for \<^verbatim>\<open>decrypt\<close>: on a payload whose first piece decodes to 15 bytes
  the error under such a key is the invalid-IV error, not the key-length error.
\<close>

theorem long_key_decrypt_invalid_iv:
  "length accented_key = 32 \<and> length (utf8_encode accented_key) = 33 \<and>
   decrypt accented_key (js ''AAECAwQFBgcICQoLDA0O:MYNSl5uYV6V9tOH5RSXtDA=='') = Inl InvalidIV \<and>
   Inl InvalidIV \<noteq> (Inl InvalidKeyLength :: error + jsstring)"
proof -
  have "length accented_key = 32" by (simp add: accented_key_def js_def)
  moreover have
    "decrypt accented_key (js ''AAECAwQFBgcICQoLDA0O:MYNSl5uYV6V9tOH5RSXtDA=='') = Inl InvalidIV"
    by (simp add: decrypt_spec Let_def codec_eval)
  ultimately show ?thesis by (simp add: accented_key_bytes)
qed

section \<open>Further properties of the module\<close>

text \<open>
  Loading the module succeeds exactly when \<^verbatim>\<open>ENCRYPTION_KEY\<close> is set and has 32 UTF-16
  code units, and then keeps the key as it is.
\<close>

theorem load_module_accepts_32_code_units:
  "(load_module env = Inr k) = (env = Some k \<and> length k = 32)"
  by (cases env) (auto simp add: load_module_def)

text \<open>
  What \<^verbatim>\<open>decrypt\<close> returns, in one piece.  With \<open>a\<close> the piece of the payload before its
  first colon and \<open>b\<close> the piece after it, if there is one: the invalid-IV error unless
  \<open>a\<close> decodes to 16 bytes; else the key-length error unless the key is 32 bytes long;
  else the argument-type error when there is no \<open>b\<close>; else the wrong-final-block-length
  error unless \<open>b\<close> decodes to whole blocks, and at least one; else the bad-decrypt error
  unless the last block deciphers to valid padding; else the text that the deciphered
  and unpadded blocks decode to.
\<close>

theorem decrypt_outcome:
  "decrypt k t =
     (let iv = b64_decode (hd (split_colon t)); key = utf8_encode k in
      if length iv \<noteq> 16 then Inl InvalidIV
      else if length key \<noteq> 32 then Inl InvalidKeyLength
      else (case tl (split_colon t) of
              [] \<Rightarrow> Inl InvalidArgType
            | b # rest \<Rightarrow>
                (let ct = b64_decode b in
                 if length ct = 0 \<or> length ct mod 16 \<noteq> 0 then Inl WrongFinalBlockLength
                 else if \<not> pkcs7_valid (final_block key iv ct) then Inl BadDecrypt
                 else Inr (utf8_end utf8_init
                        (cbc_body key iv ct @ pkcs7_unpad (final_block key iv ct))))))"
proof (cases "tl (split_colon t)")
  case Nil
  then show ?thesis
    by (simp add: decrypt_spec hd_split_colon second_part_def Let_def)
next
  case (Cons b rest)
  then show ?thesis
    by (simp add: decrypt_spec hd_split_colon second_part_def Let_def)
qed

text \<open>
  The base64 decoder reads the low byte of each code unit of a payload.  U+0141 counts as
  \<^verbatim>\<open>A\<close> and U+013D as \<^verbatim>\<open>=\<close>; a token in which a character is replaced by a code unit
  with the same low byte decrypts as the token does.
\<close>

theorem base64_reads_low_bytes:
  "b64_decode (0x141 # js ''AEC'') = [0, 1, 2] \<and>
   b64_decode (js ''AAE'' @ 0x13D # js ''CAw'') = [0, 1] \<and>
   decrypt example_key wide_iv_token = Inr (js ''hello'') \<and>
   decrypt example_key wide_text_token = Inr (js ''hello'')"
  using b64_decode_wide decrypt_wide_iv decrypt_wide_text by simp

text \<open>
  Outside the well-formed strings the round trip changes the string: for every string,
  \<^verbatim>\<open>decrypt\<close> of the token returns the decoding of the string's UTF-8 bytes, in which an
  unpaired surrogate has become U+FFFD.
\<close>

theorem round_trip_replaces_unpaired_surrogates:
  assumes "length (utf8_encode k) = 32" and "length iv = 16"
  shows "\<exists>t. encrypt k iv s = Inr t \<and> decrypt k t = Inr (utf8_end utf8_init (utf8_encode s))"
  using assms by (simp add: encrypt_token decrypt_encrypt_bytes)

theorem round_trip_replaces_unpaired_surrogates_witness:
  "length (utf8_encode example_key) = 32 \<and> length example_iv = 16 \<and>
   \<not> well_formed lone_surrogate \<and>
   (\<exists>t. encrypt example_key example_iv lone_surrogate = Inr t \<and>
        decrypt example_key t = Inr [0xFFFD])"
proof -
  have k: "length (utf8_encode example_key) = 32" by (simp add: example_key_bytes)
  have i: "length example_iv = 16" by (simp add: example_iv_def)
  have w: "\<not> well_formed lone_surrogate"
    by (simp add: lone_surrogate_def is_high_surrogate_def)
  have u: "utf8_end utf8_init (utf8_encode lone_surrogate) = [0xFFFD]"
    by (simp add: lone_surrogate_def codec_eval Let_def)
  show ?thesis
    using round_trip_replaces_unpaired_surrogates [OF k i, of lone_surrogate] k i w u by simp
qed

end
